theory Spec2Isabelle
  imports Main "HOL-Library.Word"
begin

unbundle bit_operations_syntax

section \<open>Python values used by \<^verbatim>\<open>zhdate/main.py\<close>\<close>

text \<open>
  Python's \<^verbatim>\<open>int\<close> is unbounded: it is \<^typ>\<open>int\<close>, whose bit operations are the
  two's complement ones of Python (\<^verbatim>\<open>x >> n\<close> is \<^term>\<open>drop_bit n x\<close>,
  \<^verbatim>\<open>x & y\<close> is \<^term>\<open>x AND y\<close>). A Python \<^verbatim>\<open>str\<close> is a list of Unicode code points.
  Every exception that the modelled code can raise is a value of \<open>error\<close>.
\<close>

type_synonym ustring = "nat list"

datatype error =
    IndexError
  | ValueError
  | UnboundLocalError
  | InvalidLunarDate int int int bool
    \<comment> \<open>the \<^verbatim>\<open>TypeError\<close> of \<^verbatim>\<open>ZhDate.__init__\<close>; its message renders the rejected
        year, month, day and leap flag\<close>

definition ebind :: "error + 'a \<Rightarrow> ('a \<Rightarrow> error + 'b) \<Rightarrow> error + 'b" where
  "ebind r f = (case r of Inl e \<Rightarrow> Inl e | Inr v \<Rightarrow> f v)"

definition py_index :: "'a list \<Rightarrow> int \<Rightarrow> error + 'a" where
  \<comment> \<open>\<^verbatim>\<open>xs[i]\<close>: an index from \<open>-len\<close> to \<open>-1\<close> counts from the end; out of range raises\<close>
  "py_index xs i =
     (if 0 \<le> i \<and> i < int (length xs) then Inr (xs ! nat i)
      else if - int (length xs) \<le> i \<and> i < 0 then Inr (xs ! nat (int (length xs) + i))
      else Inl IndexError)"

definition py_insert :: "'a list \<Rightarrow> int \<Rightarrow> 'a \<Rightarrow> 'a list" where
  \<comment> \<open>\<^verbatim>\<open>xs.insert(i, v)\<close>: the position is clamped to the list\<close>
  "py_insert xs i v =
     (let n = int (length xs); j = (if i < 0 then max 0 (i + n) else min i n)
      in take (nat j) xs @ [v] @ drop (nat j) xs)"

definition py_slice_to :: "'a list \<Rightarrow> int \<Rightarrow> 'a list" where
  \<comment> \<open>\<^verbatim>\<open>xs[:k]\<close>\<close>
  "py_slice_to xs k = (if k < 0 then take (nat (int (length xs) + k)) xs else take (nat k) xs)"

section \<open>\<^verbatim>\<open>datetime\<close>\<close>

text \<open>
  A naive \<^verbatim>\<open>datetime\<close> is its proleptic Gregorian day number (\<^verbatim>\<open>toordinal()\<close>) and the
  time of day in microseconds. The library itself computes with day numbers:
  \<open>days_before_year\<close>, \<open>ymd2ord\<close> and \<open>ord2year\<close> are \<^verbatim>\<open>_days_before_year\<close>,
  \<^verbatim>\<open>_ymd2ord\<close> and the year component of \<^verbatim>\<open>_ord2ymd\<close>. The years 1 to 9999 that
  \<^verbatim>\<open>datetime\<close> can hold are far away from the table's years; its \<^verbatim>\<open>OverflowError\<close>
  is not modelled.
\<close>

record datetime =
  toordinal :: int
  tod :: nat

definition is_leap :: "int \<Rightarrow> bool" where
  "is_leap y = (y mod 4 = 0 \<and> (y mod 100 \<noteq> 0 \<or> y mod 400 = 0))"

definition days_before_year :: "int \<Rightarrow> int" where
  "days_before_year year = (let y = year - 1 in y * 365 + y div 4 - y div 100 + y div 400)"

definition days_in_month :: "int \<Rightarrow> int \<Rightarrow> int" where
  "days_in_month year month =
     (if month = 2 then (if is_leap year then 29 else 28)
      else if month = 4 \<or> month = 6 \<or> month = 9 \<or> month = 11 then 30 else 31)"

definition days_before_month :: "int \<Rightarrow> int \<Rightarrow> int" where
  "days_before_month year month =
     [0, 31, 59, 90, 120, 151, 181, 212, 243, 273, 304, 334] ! nat (month - 1)
       + (if 2 < month \<and> is_leap year then 1 else 0)"

definition ymd2ord :: "int \<Rightarrow> int \<Rightarrow> int \<Rightarrow> int" where
  "ymd2ord year month day = days_before_year year + days_before_month year month + day"

definition ord2year :: "int \<Rightarrow> int" where
  "ord2year n =
     (let n0 = n - 1;
          n400 = n0 div 146097; r400 = n0 mod 146097;
          n100 = r400 div 36524; r100 = r400 mod 36524;
          n4 = r100 div 1461; r4 = r100 mod 1461;
          n1 = r4 div 365;
          year = n400 * 400 + 1 + n100 * 100 + n4 * 4 + n1
      in if n1 = 4 \<or> n100 = 4 then year - 1 else year)"

definition year_of :: "datetime \<Rightarrow> int" where
  \<comment> \<open>\<^verbatim>\<open>dt.year\<close>\<close>
  "year_of dt = ord2year (toordinal dt)"

definition strptime :: "int \<times> int \<times> int \<Rightarrow> error + datetime" where
  \<comment> \<open>\<^verbatim>\<open>datetime.strptime(s, "%Y%m%d")\<close> on the fields that the format reads from \<open>s\<close>:
      midnight of that day, \<^verbatim>\<open>ValueError\<close> when there is no such day\<close>
  "strptime s =
     (case s of (y, m, d) \<Rightarrow>
        if 1 \<le> y \<and> y \<le> 9999 \<and> 1 \<le> m \<and> m \<le> 12 \<and> 1 \<le> d \<and> d \<le> days_in_month y m
        then Inr \<lparr>toordinal = ymd2ord y m d, tod = 0\<rparr>
        else Inl ValueError)"

definition add_days :: "datetime \<Rightarrow> int \<Rightarrow> datetime" where
  \<comment> \<open>\<^verbatim>\<open>dt + timedelta(days=n)\<close>\<close>
  "add_days dt n = dt\<lparr>toordinal := toordinal dt + n\<rparr>"

definition later :: "datetime \<Rightarrow> datetime \<Rightarrow> bool" where
  \<comment> \<open>\<^verbatim>\<open>(a - b).total_seconds() > 0\<close>\<close>
  "later a b = (toordinal b < toordinal a \<or> (toordinal a = toordinal b \<and> tod b < tod a))"

definition delta_days :: "datetime \<Rightarrow> datetime \<Rightarrow> int" where
  \<comment> \<open>\<^verbatim>\<open>(a - b).days\<close>: a \<^verbatim>\<open>timedelta\<close> is normalised with a non-negative time part\<close>
  "delta_days a b = toordinal a - toordinal b - (if tod a < tod b then 1 else 0)"

section \<open>The constants\<close>

text \<open>
  \<^verbatim>\<open>zhdate/constants.py\<close> holds the tables that \<^verbatim>\<open>main.py\<close> imports. Every function
  below takes them as the parameter \<open>c\<close>. An entry of \<open>LUNARNEWYEAR\<close> is given by the
  year, month and day that \<^verbatim>\<open>"%Y%m%d"\<close> reads from its string.
\<close>

record constants =
  LUNARNEWYEAR :: "(int \<times> int \<times> int) list"
  LUNARYEARCODE :: "int list"
  ZHNUMS :: "ustring list"
  SHENGXIAO :: "ustring list"
  TIANGAN :: "ustring list"
  DIZHI :: "ustring list"

section \<open>\<^verbatim>\<open>ZhDate\<close>\<close>

subsection \<open>\<^verbatim>\<open>decode\<close>\<close>

fun decode_loop :: "int \<Rightarrow> nat list \<Rightarrow> int list \<Rightarrow> int list" where
  "decode_loop year_code [] month_days = month_days"
| "decode_loop year_code (i # rest) month_days =
     decode_loop year_code rest
       (py_insert month_days 0 (if drop_bit i year_code AND 1 \<noteq> 0 then 30 else 29))"

definition decode :: "int \<Rightarrow> int list" where
  "decode year_code =
     (let month_days = decode_loop year_code [4..<16] []
      in if year_code AND 15 \<noteq> 0
         then py_insert month_days (year_code AND 15)
                (if drop_bit 16 year_code \<noteq> 0 then 30 else 29)
         else month_days)"

subsection \<open>\<^verbatim>\<open>validate\<close>\<close>

definition validate :: "constants \<Rightarrow> int \<Rightarrow> int \<Rightarrow> int \<Rightarrow> bool \<Rightarrow> error + bool" where
  "validate c year month day leap =
     (if \<not> (1900 \<le> year \<and> year \<le> 2100 \<and> 1 \<le> month \<and> month \<le> 12 \<and> 1 \<le> day \<and> day \<le> 30)
      then Inr False
      else ebind (py_index (LUNARYEARCODE c) (year - 1900)) (\<lambda>year_code.
        if leap then
          (if year_code AND 15 \<noteq> month then Inr False
           else if day = 30 then Inr (drop_bit 16 year_code = 1)
           else Inr True)
        else if day \<le> 29 then Inr True
        else Inr (drop_bit (nat ((12 - month) + 4)) year_code AND 1 = 1)))"

subsection \<open>\<^verbatim>\<open>__init__\<close>\<close>

record ZhDate =
  lunar_year :: int
  lunar_month :: int
  lunar_day :: int
  leap_month :: bool
  year_code :: int
  newyear :: datetime

definition ZhDate_init :: "constants \<Rightarrow> int \<Rightarrow> int \<Rightarrow> int \<Rightarrow> bool \<Rightarrow> error + ZhDate" where
  "ZhDate_init c lunar_year' lunar_month' lunar_day' leap_month' =
     ebind (py_index (LUNARYEARCODE c) (lunar_year' - 1900)) (\<lambda>year_code'.
     ebind (py_index (LUNARNEWYEAR c) (lunar_year' - 1900)) (\<lambda>s.
     ebind (strptime s) (\<lambda>newyear'.
     ebind (validate c lunar_year' lunar_month' lunar_day' leap_month') (\<lambda>ok.
       if \<not> ok then Inl (InvalidLunarDate lunar_year' lunar_month' lunar_day' leap_month')
       else Inr \<lparr>lunar_year = lunar_year', lunar_month = lunar_month',
                 lunar_day = lunar_day', leap_month = leap_month',
                 year_code = year_code', newyear = newyear'\<rparr>))))"

subsection \<open>\<^verbatim>\<open>__days_passed\<close> and \<^verbatim>\<open>to_datetime\<close>\<close>

definition ZhDate_days_passed :: "ZhDate \<Rightarrow> int" where
  "ZhDate_days_passed self =
     (let month_days = decode (year_code self);
          month_leap = year_code self AND 15;
          days_passed_month =
            (if month_leap = 0 \<or> lunar_month self < month_leap
             then sum_list (py_slice_to month_days (lunar_month self - 1))
             else if \<not> leap_month self \<and> lunar_month self = month_leap
             then sum_list (py_slice_to month_days (lunar_month self - 1))
             else sum_list (py_slice_to month_days (lunar_month self)))
      in days_passed_month + lunar_day self - 1)"

definition to_datetime :: "ZhDate \<Rightarrow> datetime" where
  "to_datetime self = add_days (newyear self) (ZhDate_days_passed self)"

subsection \<open>\<^verbatim>\<open>from_datetime\<close>\<close>

text \<open>
  The loop over \<^verbatim>\<open>enumerate(accumulate(month_days))\<close>: \<open>accumulate_loop\<close> returns the
  position and the running sum at the \<^verbatim>\<open>break\<close>, or \<open>None\<close> when the loop ends
  without one, which leaves \<^verbatim>\<open>month\<close> unbound.
\<close>

fun accumulate_loop :: "int \<Rightarrow> int \<Rightarrow> int \<Rightarrow> int list \<Rightarrow> (int \<times> int) option" where
  "accumulate_loop days_passed pos acc [] = None"
| "accumulate_loop days_passed pos acc (x # rest) =
     (let days = acc + x
      in if days_passed + 1 \<le> days then Some (pos, days)
         else accumulate_loop days_passed (pos + 1) days rest)"

definition from_datetime :: "constants \<Rightarrow> datetime \<Rightarrow> error + ZhDate" where
  "from_datetime c dt =
     (let lunar_year = year_of dt in
      ebind (py_index (LUNARNEWYEAR c) (lunar_year - 1900)) (\<lambda>s.
      ebind (strptime s) (\<lambda>this_newyear.
      let lunar_year = lunar_year - (if later this_newyear dt then 1 else 0) in
      ebind (py_index (LUNARNEWYEAR c) (lunar_year - 1900)) (\<lambda>s.
      ebind (strptime s) (\<lambda>newyear_dt.
      let days_passed = delta_days dt newyear_dt in
      ebind (py_index (LUNARYEARCODE c) (lunar_year - 1900)) (\<lambda>year_code.
      let month_days = decode year_code in
      case accumulate_loop days_passed 0 0 month_days of
        None \<Rightarrow> Inl UnboundLocalError
      | Some (pos, days) \<Rightarrow>
          ebind (py_index month_days pos) (\<lambda>len.
          let month = pos + 1;
              lunar_day = len - (days - days_passed) + 1;
              lunar_month = (if year_code AND 15 = 0 \<or> month \<le> (year_code AND 15)
                             then month else month - 1);
              leap_month = (year_code AND 15 \<noteq> 0 \<and> month = (year_code AND 15) + 1)
          in ZhDate_init c lunar_year lunar_month lunar_day leap_month)))))))"

subsection \<open>\<^verbatim>\<open>chinese\<close>\<close>

text \<open>
  \<^verbatim>\<open>str(n)\<close> of an integer is its decimal digits after a minus sign for a negative one;
  \<^verbatim>\<open>int(ch)\<close> of one of these characters is the digit, and \<^verbatim>\<open>ValueError\<close> on the sign.
  The string literals of \<^verbatim>\<open>chinese\<close> are written as code points: U+5E74 (year) is 24180,
  U+6708 (month) 26376, U+95F0 (leap) 38384, U+6B63 (first month) 27491, U+814A (twelfth
  month) 33098, U+5341 (ten) 21313, U+521D 21021, U+4E8C (two) 20108, U+5EFF (twenty) 24319,
  U+4E09 (three) 19977, and the space 32.
\<close>

function digits :: "nat \<Rightarrow> ustring" where
  "digits n = (if n < 10 then [48 + n] else digits (n div 10) @ [48 + n mod 10])"
  by pat_completeness auto
termination
  by (relation "measure (\<lambda>n. n)") auto

definition py_str :: "int \<Rightarrow> ustring" where
  "py_str n = (if n < 0 then 45 # digits (nat (- n)) else digits (nat n))"

definition py_int :: "nat \<Rightarrow> error + int" where
  "py_int ch = (if 48 \<le> ch \<and> ch \<le> 57 then Inr (int ch - 48) else Inl ValueError)"

fun zh_year_loop :: "constants \<Rightarrow> int \<Rightarrow> nat list \<Rightarrow> ustring \<Rightarrow> error + ustring" where
  "zh_year_loop c y [] zh_year = Inr zh_year"
| "zh_year_loop c y (i # rest) zh_year =
     ebind (py_index (py_str y) (int i)) (\<lambda>ch.
     ebind (py_int ch) (\<lambda>d.
     ebind (py_index (ZHNUMS c) d) (\<lambda>glyph.
       zh_year_loop c y rest (zh_year @ glyph))))"

definition ZhDate_tiandi :: "constants \<Rightarrow> int \<Rightarrow> error + ustring" where
  "ZhDate_tiandi c anum =
     ebind (py_index (TIANGAN c) (anum mod 10)) (\<lambda>stem.
     ebind (py_index (DIZHI c) (anum mod 12)) (\<lambda>branch.
       Inr (stem @ branch)))"

definition chinese :: "constants \<Rightarrow> ZhDate \<Rightarrow> error + ustring" where
  "chinese c self =
     ebind (zh_year_loop c (lunar_year self) [0..<4] []) (\<lambda>zh_year.
     let zh_month = (if leap_month self then [38384] else []) in
     ebind (if lunar_month self = 1 then Inr (zh_month @ [27491])
            else if lunar_month self = 12 then Inr (zh_month @ [33098])
            else if lunar_month self \<le> 10 then
              ebind (py_index (ZHNUMS c) (lunar_month self)) (\<lambda>glyph. Inr (zh_month @ glyph))
            else
              ebind (py_index (ZHNUMS c) (lunar_month self - 10)) (\<lambda>glyph.
                Inr (zh_month @ [21313] @ glyph))) (\<lambda>zh_month.
     ebind (if lunar_day self \<le> 10 then
              ebind (py_index (ZHNUMS c) (lunar_day self)) (\<lambda>glyph. Inr ([21021] @ glyph))
            else if lunar_day self < 20 then
              ebind (py_index (ZHNUMS c) (lunar_day self - 10)) (\<lambda>glyph. Inr ([21313] @ glyph))
            else if lunar_day self = 20 then Inr [20108, 21313]
            else if lunar_day self < 30 then
              ebind (py_index (ZHNUMS c) (lunar_day self - 20)) (\<lambda>glyph. Inr ([24319] @ glyph))
            else Inr [19977, 21313]) (\<lambda>zh_day.
     ebind (ZhDate_tiandi c (lunar_year self - 1900 + 36)) (\<lambda>year_tiandi.
     ebind (py_index (SHENGXIAO c) ((lunar_year self - 1900) mod 12)) (\<lambda>shengxiao.
       Inr (zh_year @ [24180] @ zh_month @ [26376] @ zh_day @ [32]
              @ year_tiandi @ shengxiao @ [24180]))))))"

subsection \<open>\<^verbatim>\<open>__eq__\<close>\<close>

definition ZhDate_eq :: "ZhDate \<Rightarrow> ZhDate \<Rightarrow> bool" where
  "ZhDate_eq self another =
     (lunar_year self = lunar_year another \<and> lunar_month self = lunar_month another
      \<and> lunar_day self = lunar_day another \<and> leap_month self = leap_month another)"

section \<open>The regular months, as the specification reads a year code\<close>

text \<open>
  The specification reads the twelve regular months off bits 15 down to 4 of a year code:
  month \<open>m\<close> has 30 days when bit \<open>16 - m\<close> is set and 29 otherwise. \<open>regular_days\<close> is
  that reading; \<open>decode\<close> above is the code.
\<close>

definition regular_days :: "int \<Rightarrow> int list" where
  "regular_days code = map (\<lambda>m. if bit code (16 - m) then 30 else 29) [1..<13]"

section \<open>What the year tables have to satisfy\<close>

text \<open>
  The conversions are only as good as the two year tables. \<open>wf_tables\<close> collects what the
  proofs need of them: both have the 201 entries of the years 1900 to 2100; entry \<open>i\<close> of
  \<open>LUNARNEWYEAR\<close> is a date of the Gregorian year \<open>1900 + i\<close>; a year code has nothing above
  bit 16 and a leap field of at most 12; and the lunar year that a code describes ends where
  the next one begins, in the following Gregorian year.
\<close>

definition year_entry_ok :: "constants \<Rightarrow> nat \<Rightarrow> bool" where
  "year_entry_ok c i =
     (case strptime (LUNARNEWYEAR c ! i) of
        Inl e \<Rightarrow> False
      | Inr ny \<Rightarrow>
          (let code = LUNARYEARCODE c ! i; next_ny = add_days ny (sum_list (decode code))
           in year_of ny = 1900 + int i
              \<and> 0 \<le> code \<and> code < 2 ^ 17 \<and> code AND 15 \<le> 12
              \<and> year_of next_ny = 1901 + int i
              \<and> (i < 200 \<longrightarrow> strptime (LUNARNEWYEAR c ! Suc i) = Inr next_ny)))"

definition wf_tables :: "constants \<Rightarrow> bool" where
  "wf_tables c =
     (length (LUNARNEWYEAR c) = 201 \<and> length (LUNARYEARCODE c) = 201
      \<and> list_all (year_entry_ok c) [0..<201])"

section \<open>The tables of the years 1900 to 2100\<close>

text \<open>
  The concrete examples below are computed on these tables: the new year dates and year codes
  of the lunar years 1900 to 2100 and the four glyph tables (numerals, zodiac, stems,
  branches), written as code points. They are an input like any other: every general
  theorem is stated for arbitrary constants \<open>c\<close>.
\<close>

definition tables_1900_2100 :: constants where
  "tables_1900_2100 = \<lparr>
     LUNARNEWYEAR = [
       (1900, 1, 31), (1901, 2, 19), (1902, 2, 8), (1903, 1, 29), (1904, 2, 16),
       (1905, 2, 4), (1906, 1, 25), (1907, 2, 13), (1908, 2, 2), (1909, 1, 22),
       (1910, 2, 10), (1911, 1, 30), (1912, 2, 18), (1913, 2, 6), (1914, 1, 26),
       (1915, 2, 14), (1916, 2, 3), (1917, 1, 23), (1918, 2, 11), (1919, 2, 1),
       (1920, 2, 20), (1921, 2, 8), (1922, 1, 28), (1923, 2, 16), (1924, 2, 5),
       (1925, 1, 24), (1926, 2, 13), (1927, 2, 2), (1928, 1, 23), (1929, 2, 10),
       (1930, 1, 30), (1931, 2, 17), (1932, 2, 6), (1933, 1, 26), (1934, 2, 14),
       (1935, 2, 4), (1936, 1, 24), (1937, 2, 11), (1938, 1, 31), (1939, 2, 19),
       (1940, 2, 8), (1941, 1, 27), (1942, 2, 15), (1943, 2, 5), (1944, 1, 25),
       (1945, 2, 13), (1946, 2, 2), (1947, 1, 22), (1948, 2, 10), (1949, 1, 29),
       (1950, 2, 17), (1951, 2, 6), (1952, 1, 27), (1953, 2, 14), (1954, 2, 3),
       (1955, 1, 24), (1956, 2, 12), (1957, 1, 31), (1958, 2, 18), (1959, 2, 8),
       (1960, 1, 28), (1961, 2, 15), (1962, 2, 5), (1963, 1, 25), (1964, 2, 13),
       (1965, 2, 2), (1966, 1, 21), (1967, 2, 9), (1968, 1, 30), (1969, 2, 17),
       (1970, 2, 6), (1971, 1, 27), (1972, 2, 15), (1973, 2, 3), (1974, 1, 23),
       (1975, 2, 11), (1976, 1, 31), (1977, 2, 18), (1978, 2, 7), (1979, 1, 28),
       (1980, 2, 16), (1981, 2, 5), (1982, 1, 25), (1983, 2, 13), (1984, 2, 2),
       (1985, 2, 20), (1986, 2, 9), (1987, 1, 29), (1988, 2, 17), (1989, 2, 6),
       (1990, 1, 27), (1991, 2, 15), (1992, 2, 4), (1993, 1, 23), (1994, 2, 10),
       (1995, 1, 31), (1996, 2, 19), (1997, 2, 7), (1998, 1, 28), (1999, 2, 16),
       (2000, 2, 5), (2001, 1, 24), (2002, 2, 12), (2003, 2, 1), (2004, 1, 22),
       (2005, 2, 9), (2006, 1, 29), (2007, 2, 18), (2008, 2, 7), (2009, 1, 26),
       (2010, 2, 14), (2011, 2, 3), (2012, 1, 23), (2013, 2, 10), (2014, 1, 31),
       (2015, 2, 19), (2016, 2, 8), (2017, 1, 28), (2018, 2, 16), (2019, 2, 5),
       (2020, 1, 25), (2021, 2, 12), (2022, 2, 1), (2023, 1, 22), (2024, 2, 10),
       (2025, 1, 29), (2026, 2, 17), (2027, 2, 6), (2028, 1, 26), (2029, 2, 13),
       (2030, 2, 3), (2031, 1, 23), (2032, 2, 11), (2033, 1, 31), (2034, 2, 19),
       (2035, 2, 8), (2036, 1, 28), (2037, 2, 15), (2038, 2, 4), (2039, 1, 24),
       (2040, 2, 12), (2041, 2, 1), (2042, 1, 22), (2043, 2, 10), (2044, 1, 30),
       (2045, 2, 17), (2046, 2, 6), (2047, 1, 26), (2048, 2, 14), (2049, 2, 2),
       (2050, 1, 23), (2051, 2, 11), (2052, 2, 1), (2053, 2, 19), (2054, 2, 8),
       (2055, 1, 28), (2056, 2, 15), (2057, 2, 4), (2058, 1, 24), (2059, 2, 12),
       (2060, 2, 2), (2061, 1, 21), (2062, 2, 9), (2063, 1, 29), (2064, 2, 17),
       (2065, 2, 5), (2066, 1, 26), (2067, 2, 14), (2068, 2, 3), (2069, 1, 23),
       (2070, 2, 11), (2071, 1, 31), (2072, 2, 19), (2073, 2, 7), (2074, 1, 27),
       (2075, 2, 15), (2076, 2, 5), (2077, 1, 24), (2078, 2, 12), (2079, 2, 2),
       (2080, 1, 22), (2081, 2, 9), (2082, 1, 29), (2083, 2, 17), (2084, 2, 6),
       (2085, 1, 26), (2086, 2, 14), (2087, 2, 3), (2088, 1, 24), (2089, 2, 10),
       (2090, 1, 30), (2091, 2, 18), (2092, 2, 7), (2093, 1, 27), (2094, 2, 15),
       (2095, 2, 5), (2096, 1, 25), (2097, 2, 12), (2098, 2, 1), (2099, 1, 21),
       (2100, 2, 9)],
     LUNARYEARCODE = [
       19416, 19168, 42352, 21717, 53856, 55632, 91476, 22176, 39632, 21970,
       19168, 42422, 42192, 53840, 119381, 46400, 54944, 44450, 38320, 84343,
       18800, 42160, 46261, 27216, 27968, 109396, 11104, 38256, 21234, 18800,
       25958, 54432, 59984, 92821, 23248, 11104, 100067, 37600, 116951, 51536,
       54432, 120998, 46416, 22176, 107956, 9680, 37584, 53938, 43344, 46423,
       27808, 46416, 86869, 19872, 42416, 83315, 21168, 43432, 59728, 27296,
       44710, 43856, 19296, 43748, 42352, 21088, 62051, 55632, 23383, 22176,
       38608, 19925, 19152, 42192, 54484, 53840, 54616, 46400, 46752, 103846,
       38320, 18864, 43380, 42160, 45690, 27216, 27968, 44870, 43872, 38256,
       19189, 18800, 25776, 29859, 59984, 27480, 23232, 43872, 38613, 37600,
       51552, 55636, 54432, 55888, 30034, 22176, 43959, 9680, 37584, 51893,
       43344, 46240, 47780, 44368, 21977, 19360, 42416, 86390, 21168, 43312,
       31060, 27296, 44368, 23378, 19296, 42726, 42208, 53856, 60005, 54576,
       23200, 30371, 38608, 19195, 19152, 42192, 118966, 53840, 54560, 56645,
       46496, 22224, 21938, 18864, 42359, 42160, 43600, 111189, 27936, 44448,
       84835, 37744, 18936, 18800, 25776, 92326, 59984, 27296, 108228, 43744,
       37600, 53987, 51552, 54615, 54432, 55888, 23893, 22176, 42704, 21972,
       21200, 43448, 43344, 46240, 46758, 44368, 21920, 43940, 42416, 21168,
       45683, 26928, 29495, 27296, 44368, 84821, 19296, 42352, 21732, 53600,
       59752, 54560, 55968, 92838, 22224, 19168, 43476, 41680, 53584, 62034,
       54560],
     ZHNUMS = [[12295], [19968], [20108], [19977], [22235], [20116], [20845], [19971], [20843], [20061], [21313]],
     SHENGXIAO = [[40736], [29275], [34382], [20820], [40857], [34503], [39532], [32650], [29492], [40481], [29399], [29482]],
     TIANGAN = [[30002], [20057], [19993], [19969], [25098], [24049], [24218], [36763], [22764], [30328]],
     DIZHI = [[23376], [19985], [23493], [21359], [36784], [24051], [21320], [26410], [30003], [37193], [25100], [20133]]\<rparr>"

section \<open>Properties of \<^verbatim>\<open>decode\<close>\<close>

lemma upt_4_16: "[4..<16] = [4,5,6,7,8,9,10,11,12,13,14,15::nat]"
  by code_simp

lemma upt_1_13: "[Suc 0..<13] = [1,2,3,4,5,6,7,8,9,10,11,12::nat]"
  by code_simp

lemma py_insert_0: "py_insert xs 0 v = v # xs"
  by (simp add: py_insert_def)

lemma and_one_ne0: "(k AND 1 \<noteq> 0) = odd (k::int)"
  by (simp add: and_one_eq) presburger

lemma and_one_eq1: "(k AND 1 = 1) = odd (k::int)"
  by (simp add: and_one_eq) presburger


lemma decode_loop_regular: "decode_loop code [4..<16] [] = regular_days code"
  by (simp add: upt_4_16 upt_1_13 py_insert_0 and_one_ne0 regular_days_def bit_iff_odd_drop_bit
      split del: if_split)

lemma length_regular_days: "length (regular_days code) = 12"
  by (simp add: regular_days_def)

lemma regular_days_nth: "i < 12 \<Longrightarrow> regular_days code ! i = (if bit code (15 - i) then 30 else 29)"
  unfolding regular_days_def by (simp add: nth_map_upt del: upt_Suc split del: if_split) 

lemma and_15_bounds: "0 \<le> (code::int) AND 15 \<and> (code::int) AND 15 \<le> 15"
  by (simp add: AND_upper2')

lemma py_insert_nonneg: "0 \<le> i \<Longrightarrow> py_insert xs i v = take (nat i) xs @ [v] @ drop (nat i) xs"
  by (auto simp: py_insert_def Let_def min_def)

lemma decode_eq:
  "decode code =
     (if code AND 15 = 0 then regular_days code
      else take (nat (code AND 15)) (regular_days code)
             @ [if drop_bit 16 code \<noteq> 0 then 30 else 29]
             @ drop (nat (code AND 15)) (regular_days code))"
proof -
  have "py_insert xs (code AND 15) v = take (nat (code AND 15)) xs @ [v] @ drop (nat (code AND 15)) xs"
    for xs :: "int list" and v
    by (rule py_insert_nonneg) simp
  then show ?thesis
    unfolding decode_def decode_loop_regular by (simp add: Let_def)
qed

lemma length_decode: "length (decode code) = (if code AND 15 = 0 then 12 else 13)"
proof -
  have "min 12 n + (12 - n) = (12::nat)" for n
    by simp
  then show ?thesis
    by (simp add: decode_eq length_regular_days)
qed

lemma set_regular_days: "d \<in> set (regular_days code) \<Longrightarrow> d = 29 \<or> d = 30"
  by (auto simp: regular_days_def)

lemma set_decode: "d \<in> set (decode code) \<Longrightarrow> d = 29 \<or> d = 30"
proof -
  assume d: "d \<in> set (decode code)"
  have "set (decode code) \<subseteq> set (regular_days code) \<union> {29, 30}"
    using set_take_subset[of "nat (code AND 15)" "regular_days code"]
      set_drop_subset[of "nat (code AND 15)" "regular_days code"]
    by (simp add: decode_eq) blast
  with d show ?thesis
    using set_regular_days[of d code] by blast
qed

lemma drop_bit_16_cases:
  assumes "0 \<le> code" "code < 2 ^ 17"
  shows "drop_bit 16 (code::int) = 0 \<or> drop_bit 16 code = 1"
proof -
  have "code div 65536 < 2"
    using assms by (simp add: div_less_iff_less_mult)
  moreover have "0 \<le> code div 65536"
    using assms by (simp add: pos_imp_zdiv_nonneg_iff)
  ultimately have "code div 65536 = 0 \<or> code div 65536 = 1"
    by linarith
  then show ?thesis
    by (simp add: drop_bit_eq_div)
qed

lemma bit16_ne0: "0 \<le> code \<Longrightarrow> code < 2 ^ 17 \<Longrightarrow> (drop_bit 16 code \<noteq> 0) = bit (code::int) 16"
  using drop_bit_16_cases[of code] by (auto simp: bit_iff_odd_drop_bit)

lemma bit16_eq1: "0 \<le> code \<Longrightarrow> code < 2 ^ 17 \<Longrightarrow> (drop_bit 16 code = 1) = bit (code::int) 16"
  using drop_bit_16_cases[of code] by (auto simp: bit_iff_odd_drop_bit)

text \<open>
  Claim C3. For a packed year code (nothing above bit 16, leap field \<open>L\<close> at most 12),
  \<open>decode\<close> returns the twelve regular months of bits 15 down to 4 in the order of the
  months 1 to 12, each 30 for a set bit and 29 otherwise; when \<open>L\<close> is not 0 one more entry
  stands at position \<open>L\<close> (counted from 0), 30 when bit 16 is set and 29 otherwise, and the
  result has 13 entries; when \<open>L\<close> is 0 it has 12. Every entry is 29 or 30.
\<close>

theorem decode_layout:
  assumes "0 \<le> code" "code < 2 ^ 17" "code AND 15 \<le> 12"
  shows "decode code =
           (if code AND 15 = 0 then map (\<lambda>m. if bit code (16 - m) then 30 else 29) [1..<13]
            else take (nat (code AND 15)) (map (\<lambda>m. if bit code (16 - m) then 30 else 29) [1..<13])
                   @ [if bit code 16 then 30 else 29]
                   @ drop (nat (code AND 15)) (map (\<lambda>m. if bit code (16 - m) then 30 else 29) [1..<13]))
         \<and> length (decode code) = (if code AND 15 = 0 then 12 else 13)
         \<and> (code AND 15 \<noteq> 0 \<longrightarrow> decode code ! nat (code AND 15) = (if bit code 16 then 30 else 29))
         \<and> list_all (\<lambda>d. d = 29 \<or> d = 30) (decode code)"
proof -
  have R: "map (\<lambda>m. if bit code (16 - m) then 30 else 29) [1..<13] = regular_days code"
    by (simp add: regular_days_def)
  have A: "list_all (\<lambda>d. d = 29 \<or> d = 30) (decode code)"
    unfolding list_all_iff using set_decode by blast
  have B: "code AND 15 \<noteq> 0 \<Longrightarrow> decode code ! nat (code AND 15) = (if bit code 16 then 30 else 29)"
    using assms and_15_bounds[of code]
    by (simp add: decode_eq bit16_ne0 nth_append length_regular_days)
  have C: "decode code =
           (if code AND 15 = 0 then regular_days code
            else take (nat (code AND 15)) (regular_days code)
                   @ [if bit code 16 then 30 else 29]
                   @ drop (nat (code AND 15)) (regular_days code))"
    using assms by (simp add: decode_eq bit16_ne0)
  show ?thesis
    unfolding R using A B C length_decode[of code] by blast
qed

theorem decode_layout_witness:
  "decode 19416 = [29, 30, 29, 29, 30, 29, 30, 30, 29, 30, 30, 29, 30]
   \<and> length (decode 19416) = 13 \<and> decode 19416 ! 8 = 29"
proof -
  have h: "(0::int) \<le> 19416" "(19416::int) < 2 ^ 17" "(19416::int) AND 15 \<le> 12"
    by simp_all
  show ?thesis
    using decode_layout [OF h] by (simp add: upt_1_13)
qed

section \<open>Properties of \<^verbatim>\<open>validate\<close>\<close>

lemma ebind_Inr [simp]: "ebind (Inr v) f = f v"
  by (simp add: ebind_def)

lemma ebind_Inl [simp]: "ebind (Inl e) f = Inl e"
  by (simp add: ebind_def)

lemma py_index_in_range:
  "0 \<le> i \<Longrightarrow> i < int (length xs) \<Longrightarrow> py_index xs i = Inr (xs ! nat i)"
  by (simp add: py_index_def Let_def)

lemma py_index_wraps:
  "- int (length xs) \<le> i \<Longrightarrow> i < 0 \<Longrightarrow> py_index xs i = Inr (xs ! nat (int (length xs) + i))"
  by (simp add: py_index_def Let_def)

lemma py_index_above: "int (length xs) \<le> i \<Longrightarrow> py_index xs i = Inl IndexError"
  by (simp add: py_index_def Let_def)

lemma py_index_below: "i < - int (length xs) \<Longrightarrow> py_index xs i = Inl IndexError"
  by (simp add: py_index_def Let_def)

lemma validate_in_range:
  assumes "length (LUNARYEARCODE c) = 201"
    and "1900 \<le> year" "year \<le> 2100" "1 \<le> month" "month \<le> 12" "1 \<le> day" "day \<le> 30"
  shows "validate c year month day leap =
     (let year_code = LUNARYEARCODE c ! nat (year - 1900) in
        if leap then Inr (year_code AND 15 = month \<and> (day = 30 \<longrightarrow> drop_bit 16 year_code = 1))
        else Inr (day \<le> 29 \<or> bit year_code (nat ((12 - month) + 4))))"
proof -
  have idx: "py_index (LUNARYEARCODE c) (year - 1900) = Inr (LUNARYEARCODE c ! nat (year - 1900))"
    using assms by (intro py_index_in_range) simp_all
  have guard: "(1900 \<le> year \<and> year \<le> 2100 \<and> 1 \<le> month \<and> month \<le> 12 \<and> 1 \<le> day \<and> day \<le> 30) = True"
    using assms(2-7) by simp
  have d: "day \<le> 29 \<or> day = 30"
    using assms(7) by linarith
  show ?thesis
    unfolding validate_def guard idx ebind_Inr Let_def and_one_eq1 bit_iff_odd_drop_bit
    using d by (cases leap) auto
qed


text \<open>
  Claim C5. With the leap flag, a date of a year in 1900 to 2100, a month in 1 to 12 and a day
  in 1 to 30 is rejected when the leap field of the year's code differs from the month; when
  they agree the date is valid for a day of at most 29, and day 30 is valid exactly when bit 16
  of the code is set. The year's code is a packed code: it has nothing above bit 16.
\<close>

theorem validate_leap_month:
  assumes "length (LUNARYEARCODE c) = 201"
    and "1900 \<le> year" "year \<le> 2100" "1 \<le> month" "month \<le> 12" "1 \<le> day" "day \<le> 30"
    and "0 \<le> LUNARYEARCODE c ! nat (year - 1900)" "LUNARYEARCODE c ! nat (year - 1900) < 2 ^ 17"
  shows "validate c year month day True =
           Inr ((LUNARYEARCODE c ! nat (year - 1900)) AND 15 = month
                \<and> (day \<le> 29 \<or> bit (LUNARYEARCODE c ! nat (year - 1900)) 16))"
proof -
  have "(day = 30 \<longrightarrow> b) = (day \<le> 29 \<or> b)" for b
    using assms(6,7) by auto
  then show ?thesis
    using validate_in_range[OF assms(1-7), of True] bit16_eq1[OF assms(8,9)]
    by (simp add: Let_def)
qed

lemma codes_length: "length (LUNARYEARCODE tables_1900_2100) = 201"
  by (simp add: tables_1900_2100_def)

lemma code_2023: "LUNARYEARCODE tables_1900_2100 ! 123 = 23378"
  by (simp add: tables_1900_2100_def)

theorem validate_leap_month_witness:
  "validate tables_1900_2100 2023 2 29 True = Inr True
   \<and> validate tables_1900_2100 2023 2 30 True = Inr False
   \<and> validate tables_1900_2100 2023 3 1 True = Inr False"
  using validate_leap_month [OF codes_length, of 2023 2 29]
    validate_leap_month [OF codes_length, of 2023 2 30]
    validate_leap_month [OF codes_length, of 2023 3 1]
  by (simp add: code_2023)



text \<open>
  Claim C4. Without the leap flag, a date of a year in 1900 to 2100, a month in 1 to 12 and a
  day in 1 to 30 is valid when the day is at most 29, and day 30 is valid exactly when bit
  \<open>(12 - month) + 4\<close> of the year's code is set. A year, month or day outside these ranges
  makes \<open>validate\<close> return false.
\<close>

theorem validate_regular_month:
  assumes "length (LUNARYEARCODE c) = 201"
  shows "(1900 \<le> year \<and> year \<le> 2100 \<and> 1 \<le> month \<and> month \<le> 12 \<and> 1 \<le> day \<and> day \<le> 30 \<longrightarrow>
            validate c year month day False =
              Inr (day \<le> 29 \<or> bit (LUNARYEARCODE c ! nat (year - 1900)) (nat ((12 - month) + 4))))
       \<and> (\<not> (1900 \<le> year \<and> year \<le> 2100 \<and> 1 \<le> month \<and> month \<le> 12 \<and> 1 \<le> day \<and> day \<le> 30) \<longrightarrow>
            validate c year month day leap = Inr False)"
proof (intro conjI impI)
  assume "1900 \<le> year \<and> year \<le> 2100 \<and> 1 \<le> month \<and> month \<le> 12 \<and> 1 \<le> day \<and> day \<le> 30"
  then show "validate c year month day False =
      Inr (day \<le> 29 \<or> bit (LUNARYEARCODE c ! nat (year - 1900)) (nat ((12 - month) + 4)))"
    using validate_in_range[OF assms, of year month day False] by (simp add: Let_def)
next
  assume "\<not> (1900 \<le> year \<and> year \<le> 2100 \<and> 1 \<le> month \<and> month \<le> 12 \<and> 1 \<le> day \<and> day \<le> 30)"
  then show "validate c year month day leap = Inr False"
    unfolding validate_def by (simp only: if_True not_False_eq_True)
qed

theorem validate_regular_month_witness:
  "validate tables_1900_2100 2023 2 30 False = Inr True
   \<and> validate tables_1900_2100 2023 1 30 False = Inr False
   \<and> validate tables_1900_2100 2023 13 1 False = Inr False"
  using validate_regular_month [OF codes_length, of 2023 2 30]
    validate_regular_month [OF codes_length, of 2023 1 30]
    validate_regular_month [OF codes_length, of 2023 13 1 False]
  by (simp add: code_2023)

lemma validate_out_of_range:
  "\<not> (1900 \<le> year \<and> year \<le> 2100 \<and> 1 \<le> month \<and> month \<le> 12 \<and> 1 \<le> day \<and> day \<le> 30) \<Longrightarrow>
   validate c year month day leap = Inr False"
  unfolding validate_def by (simp only: if_True not_False_eq_True)

lemma nth_insert_lt: "i < k \<Longrightarrow> k \<le> length xs \<Longrightarrow> (take k xs @ v # drop k xs) ! i = xs ! i"
  by (simp add: nth_append)

lemma nth_insert_eq: "k \<le> length xs \<Longrightarrow> (take k xs @ v # drop k xs) ! k = v"
  by (simp add: nth_append)

lemma nth_insert_gt:
  assumes "k < i" "k \<le> length xs"
  shows "(take k xs @ v # drop k xs) ! i = xs ! (i - 1)"
proof -
  obtain j where j: "i = k + Suc j"
    using assms(1) less_iff_Suc_add by auto
  show ?thesis
    using assms(2) unfolding j by (simp add: nth_append)
qed

text \<open>
  The bit of \<^verbatim>\<open>(year_code >> (12 - month) + 4) & 1\<close> and the list of \<open>decode\<close>: for every
  integer code and every month from 1 to 12 the bit is set exactly when the entry of the
  regular month is 30, the entry at index \<open>month - 1\<close> when the leap field \<open>L\<close> is 0 or
  \<open>month \<le> L\<close>, and at index \<open>month\<close> when \<open>month > L\<close>.
\<close>

lemma day30_bit_is_decode_entry:
  assumes "1 \<le> month" "month \<le> 12"
  shows "(drop_bit (nat ((12 - month) + 4)) code AND 1 = 1) =
         (decode code ! nat (if code AND 15 = 0 \<or> month \<le> (code AND 15) then month - 1 else month) = 30)"
proof -
  have b: "0 \<le> code AND 15" using and_15_bounds[of code] by simp
  have m: "nat (month - 1) < 12" "15 - nat (month - 1) = nat (12 - month + 4)"
    using assms by simp_all
  have reg: "(regular_days code ! nat (month - 1) = 30) = bit code (nat (12 - month + 4))"
    using m by (simp add: regular_days_nth)
  show ?thesis
  proof (cases "code AND 15 = 0")
    case True
    then show ?thesis
      using reg by (simp add: decode_eq and_one_eq1 bit_iff_odd_drop_bit)
  next
    case False
    show ?thesis
    proof (cases "month \<le> (code AND 15)")
      case True
      then have "nat (month - 1) < min 12 (nat (code AND 15))"
        using assms by arith
      then have "(take (nat (code AND 15)) (regular_days code) @ v # drop (nat (code AND 15)) (regular_days code)) ! nat (month - 1)
            = regular_days code ! nat (month - 1)" for v
        by (simp add: nth_append length_regular_days)
      then show ?thesis
        using reg False True
        by (simp add: decode_eq and_one_eq1 bit_iff_odd_drop_bit)
    next
      case gt: False
      then have k: "nat (code AND 15) < nat month" "nat (code AND 15) < 12"
        using assms b by arith+
      have "nat month - 1 = nat (month - 1)"
        using assms by arith
      then have "(take (nat (code AND 15)) (regular_days code) @ v # drop (nat (code AND 15)) (regular_days code)) ! nat month
            = regular_days code ! nat (month - 1)" for v
        using k nth_insert_gt[of "nat (code AND 15)" "nat month" "regular_days code" v]
        by (simp add: length_regular_days)
      then show ?thesis
        using reg False gt
        by (simp add: decode_eq and_one_eq1 bit_iff_odd_drop_bit)
    qed
  qed
qed

lemma decode_2023: "decode 23378 = [29, 30, 29, 29, 30, 30, 29, 30, 30, 29, 30, 29, 30]"
  by (simp add: decode_eq regular_days_def upt_1_13 bit_iff_odd_drop_bit drop_bit_eq_div
      py_insert_def)

text \<open>
  Claim C7. What \<open>validate\<close> answers for day 30 of a month without the leap flag agrees with
  \<open>decode\<close>: for a year of the table, whatever its code, and every month \<open>m\<close> from 1 to 12,
  \<open>validate\<close> accepts day 30 exactly when the entry of \<open>decode\<close> for the regular month \<open>m\<close>
  is 30, the entry at index \<open>m - 1\<close> when the leap field \<open>L\<close> is 0 or \<open>m \<le> L\<close>, and at index
  \<open>m\<close> when \<open>m > L\<close>. Hence it accepts exactly the days of the month that \<open>decode\<close> gives.
\<close>

theorem validate_agrees_with_decode:
  assumes len: "length (LUNARYEARCODE c) = 201"
    and y: "1900 \<le> year" "year \<le> 2100"
    and m: "1 \<le> month" "month \<le> 12"
    and code: "code = LUNARYEARCODE c ! nat (year - 1900)"
    and idx: "idx = nat (if code AND 15 = 0 \<or> month \<le> (code AND 15) then month - 1 else month)"
  shows "validate c year month 30 False = Inr (decode code ! idx = 30)
         \<and> (\<forall>day. 1 \<le> day \<and> day \<le> 30
               \<longrightarrow> validate c year month day False = Inr (day \<le> decode code ! idx))"
proof -
  have bit30: "bit code (nat ((12 - month) + 4)) = (decode code ! idx = 30)"
    using day30_bit_is_decode_entry[OF m, of code]
    unfolding idx and_one_eq1 bit_iff_odd_drop_bit .
  have v: "validate c year month day False = Inr (day \<le> 29 \<or> decode code ! idx = 30)"
    if "1 \<le> day" "day \<le> 30" for day
    using validate_in_range[OF len y m that, of False] bit30
    by (simp add: Let_def code)
  have "idx < length (decode code)"
  proof (cases "code AND 15 = 0")
    case True
    have "nat (month - 1) < 12" using m by arith
    then show ?thesis unfolding idx length_decode using True by simp
  next
    case False
    have "nat (month - 1) < 13" "nat month < 13" using m by arith+
    then show ?thesis unfolding idx length_decode using False by simp
  qed
  then have "decode code ! idx \<in> set (decode code)"
    by (rule nth_mem)
  then have e: "decode code ! idx = 29 \<or> decode code ! idx = 30"
    by (rule set_decode)
  have "validate c year month 30 False = Inr (decode code ! idx = 30)"
    using v[of 30] by simp
  moreover have "validate c year month day False = Inr (day \<le> decode code ! idx)"
    if "1 \<le> day" "day \<le> 30" for day
    using v[OF that] e that by auto
  ultimately show ?thesis
    by simp
qed

theorem validate_agrees_with_decode_witness:
  "validate tables_1900_2100 2023 2 30 False = Inr True
   \<and> validate tables_1900_2100 2023 3 30 False = Inr False
   \<and> validate tables_1900_2100 2023 3 29 False = Inr True"
  using validate_agrees_with_decode [OF codes_length, of 2023 2 23378 1]
    validate_agrees_with_decode [OF codes_length, of 2023 3 23378 3]
  by (simp add: code_2023 decode_2023)

section \<open>Properties of \<^verbatim>\<open>__init__\<close>\<close>

lemma ZhDate_init_in_table:
  assumes "py_index (LUNARYEARCODE c) (y - 1900) = Inr code"
    and "py_index (LUNARNEWYEAR c) (y - 1900) = Inr s"
    and "strptime s = Inr ny"
    and "validate c y m d l = Inr ok"
  shows "ZhDate_init c y m d l =
           (if ok then Inr \<lparr>lunar_year = y, lunar_month = m, lunar_day = d, leap_month = l,
                             year_code = code, newyear = ny\<rparr>
            else Inl (InvalidLunarDate y m d l))"
  using assms by (simp add: ZhDate_init_def)

lemma nys_length: "length (LUNARNEWYEAR tables_1900_2100) = 201"
  by (simp add: tables_1900_2100_def)

lemma ny_2100: "LUNARNEWYEAR tables_1900_2100 ! 200 = (2100, 2, 9)"
  by (simp add: tables_1900_2100_def)

lemma code_2100: "LUNARYEARCODE tables_1900_2100 ! 200 = 54560"
  by (simp add: tables_1900_2100_def)

lemma strptime_2100: "strptime (2100, 2, 9) = Inr \<lparr>toordinal = 766684, tod = 0\<rparr>"
  by (simp add: strptime_def days_in_month_def is_leap_def ymd2ord_def days_before_year_def
      days_before_month_def)

text \<open>
  Claim C10. \<^verbatim>\<open>__init__\<close> reads both year tables at \<open>lunar_year - 1900\<close> before it calls
  \<open>validate\<close>. With the 201-entry tables, a year from 2101 on raises \<^verbatim>\<open>IndexError\<close>, not the
  validation error; a year from 1699 to 1899 gives a negative index that Python counts from
  the end (entry \<open>lunar_year - 1699\<close>), both reads succeed, and once the entry is parsed
  the validation error is raised.
\<close>

theorem init_outside_table:
  assumes "length (LUNARYEARCODE c) = 201" "length (LUNARNEWYEAR c) = 201"
  shows "(2101 \<le> y \<longrightarrow> ZhDate_init c y m d l = Inl IndexError)
       \<and> (1699 \<le> y \<and> y \<le> 1899 \<longrightarrow>
            py_index (LUNARYEARCODE c) (y - 1900) = Inr (LUNARYEARCODE c ! nat (y - 1699))
          \<and> py_index (LUNARNEWYEAR c) (y - 1900) = Inr (LUNARNEWYEAR c ! nat (y - 1699))
          \<and> (\<forall>ny. strptime (LUNARNEWYEAR c ! nat (y - 1699)) = Inr ny \<longrightarrow>
                 ZhDate_init c y m d l = Inl (InvalidLunarDate y m d l)))"
proof (intro conjI impI allI)
  assume "2101 \<le> y"
  then have "py_index (LUNARYEARCODE c) (y - 1900) = Inl IndexError"
    using assms(1) by (intro py_index_above) simp
  then show "ZhDate_init c y m d l = Inl IndexError"
    by (simp add: ZhDate_init_def)
next
  assume y: "1699 \<le> y \<and> y \<le> 1899"
  have n: "nat (201 + (y - 1900)) = nat (y - 1699)"
    by simp
  show code: "py_index (LUNARYEARCODE c) (y - 1900) = Inr (LUNARYEARCODE c ! nat (y - 1699))"
    using y assms(1) py_index_wraps[of "LUNARYEARCODE c" "y - 1900"] by (simp add: n)
  show ny: "py_index (LUNARNEWYEAR c) (y - 1900) = Inr (LUNARNEWYEAR c ! nat (y - 1699))"
    using y assms(2) py_index_wraps[of "LUNARNEWYEAR c" "y - 1900"] by (simp add: n)
  fix dt
  assume "strptime (LUNARNEWYEAR c ! nat (y - 1699)) = Inr dt"
  moreover have "validate c y m d l = Inr False"
    using y by (intro validate_out_of_range) simp
  ultimately show "ZhDate_init c y m d l = Inl (InvalidLunarDate y m d l)"
    using ZhDate_init_in_table[OF code ny, of dt m d l False] by simp
qed

theorem init_outside_table_witness:
  "ZhDate_init tables_1900_2100 2101 1 1 False = Inl IndexError
   \<and> ZhDate_init tables_1900_2100 1899 1 1 False = Inl (InvalidLunarDate 1899 1 1 False)"
  using init_outside_table [OF codes_length nys_length, of 2101 1 1 False]
    init_outside_table [OF codes_length nys_length, of 1899 1 1 False]
  by (simp add: ny_2100 strptime_2100)

text \<open>
  Claim C6. Construction raises the validation error exactly when \<open>validate\<close> returns false,
  and succeeds with the four fields otherwise. The code does not do this for every input: for
  the year 2101 \<open>validate\<close> returns false, and \<^verbatim>\<open>__init__\<close> raises \<^verbatim>\<open>IndexError\<close> from the
  table read that precedes the call of \<open>validate\<close>.
\<close>

theorem init_year_2101_raises_IndexError:
  "ZhDate_init tables_1900_2100 2101 1 1 False = Inl IndexError
   \<and> validate tables_1900_2100 2101 1 1 False = Inr False"
  by (simp add: ZhDate_init_def validate_def py_index_def codes_length)

section \<open>Properties of \<^verbatim>\<open>chinese\<close>\<close>

lemma ZhDate_init_InrD:
  assumes "ZhDate_init c y m d l = Inr z"
  shows "lunar_year z = y \<and> lunar_month z = m \<and> lunar_day z = d \<and> leap_month z = l
         \<and> validate c y m d l = Inr True
         \<and> py_index (LUNARYEARCODE c) (y - 1900) = Inr (year_code z)
         \<and> (\<exists>s. py_index (LUNARNEWYEAR c) (y - 1900) = Inr s \<and> strptime s = Inr (newyear z))"
  using assms unfolding ZhDate_init_def ebind_def
  by (auto split: sum.splits if_splits)

lemma validate_TrueD:
  assumes "validate c y m d l = Inr True"
  shows "1900 \<le> y \<and> y \<le> 2100 \<and> 1 \<le> m \<and> m \<le> 12 \<and> 1 \<le> d \<and> d \<le> 30"
proof (rule ccontr)
  assume "\<not> ?thesis"
  then have "validate c y m d l = Inr False"
    by (rule validate_out_of_range)
  with assms show False by simp
qed

lemma digits_lt10: "n < 10 \<Longrightarrow> digits n = [48 + n]"
  by (subst digits.simps) simp

lemma digits_ge10: "10 \<le> n \<Longrightarrow> digits n = digits (n div 10) @ [48 + n mod 10]"
  by (subst digits.simps) simp

lemma digits_4:
  assumes "1000 \<le> n" "n < 10000"
  shows "digits n = [48 + n div 1000, 48 + n div 100 mod 10, 48 + n div 10 mod 10, 48 + n mod 10]"
proof -
  have a: "n div 10 div 10 = n div 100" "n div 100 div 10 = n div 1000"
    by (simp_all add: div_mult2_eq[symmetric])
  have "digits n = digits (n div 10) @ [48 + n mod 10]"
    using assms by (intro digits_ge10) simp
  also have "digits (n div 10) = digits (n div 100) @ [48 + n div 10 mod 10]"
    using assms digits_ge10[of "n div 10"] by (simp add: a)
  also have "digits (n div 100) = digits (n div 1000) @ [48 + n div 100 mod 10]"
    using assms digits_ge10[of "n div 100"] by (simp add: a)
  also have "digits (n div 1000) = [48 + n div 1000]"
    using assms by (intro digits_lt10) simp
  finally show ?thesis by simp
qed

lemma py_int_digit: "k \<le> 9 \<Longrightarrow> py_int (48 + k) = Inr (int k)"
  by (simp add: py_int_def)

lemma upt_0_4: "[0..<4] = [0, 1, 2, 3::nat]"
  by code_simp

lemma zh_year_loop_4:
  assumes "1000 \<le> y" "y < 10000" "10 \<le> length (ZHNUMS c)"
  shows "zh_year_loop c y [0..<4] [] =
           Inr (ZHNUMS c ! nat (y div 1000) @ ZHNUMS c ! nat (y div 100 mod 10)
                @ ZHNUMS c ! nat (y div 10 mod 10) @ ZHNUMS c ! nat (y mod 10))"
proof -
  define n where "n = nat y"
  have n: "1000 \<le> n" "n < 10000" and y: "y = int n"
    using assms(1,2) by (simp_all add: n_def)
  have s: "py_str y = [48 + n div 1000, 48 + n div 100 mod 10, 48 + n div 10 mod 10, 48 + n mod 10]"
    using digits_4[OF n] assms(1) by (simp add: py_str_def n_def)
  have d: "n div 1000 \<le> 9" "n div 100 mod 10 \<le> 9" "n div 10 mod 10 \<le> 9" "n mod 10 \<le> 9"
    using n by simp_all
  have z: "k \<le> 9 \<Longrightarrow> py_index (ZHNUMS c) (int k) = Inr (ZHNUMS c ! k)" for k
    using assms(3) by (simp add: py_index_in_range)
  have i: "py_index [a, b, e, f] 0 = Inr a" "py_index [a, b, e, f] 1 = Inr b"
    "py_index [a, b, e, f] 2 = Inr e" "py_index [a, b, e, f] 3 = Inr f" for a b e f :: nat
    by (simp_all add: py_index_def)
  have t: "nat (y div 1000) = n div 1000" "nat (y div 100 mod 10) = n div 100 mod 10"
    "nat (y div 10 mod 10) = n div 10 mod 10" "nat (y mod 10) = n mod 10"
    unfolding y by (simp_all add: nat_div_distrib nat_mod_distrib)
  show ?thesis
    unfolding upt_0_4 t by (simp add: s i py_int_digit d z)
qed


lemma tiandi_ok:
  assumes "length (TIANGAN c) = 10" "length (DIZHI c) = 12"
  shows "ZhDate_tiandi c anum = Inr (TIANGAN c ! nat (anum mod 10) @ DIZHI c ! nat (anum mod 12))"
proof -
  have "py_index (TIANGAN c) (anum mod 10) = Inr (TIANGAN c ! nat (anum mod 10))"
    using assms(1) by (intro py_index_in_range) simp_all
  moreover have "py_index (DIZHI c) (anum mod 12) = Inr (DIZHI c ! nat (anum mod 12))"
    using assms(2) by (intro py_index_in_range) simp_all
  ultimately show ?thesis
    by (simp add: ZhDate_tiandi_def)
qed

text \<open>
  Claim C9. For every valid date, \<^verbatim>\<open>chinese()\<close> is the four numeral glyphs of the year's
  decimal digits, the year sign, the leap sign when the leap flag is set, the month name, the
  month sign, the day name, a space, the stem at index \<open>(lunar_year - 1900 + 36) mod 10\<close>
  followed by the branch at index \<open>(lunar_year - 1900 + 36) mod 12\<close>, the zodiac entry at
  index \<open>(lunar_year - 1900) mod 12\<close>, and the year sign.
\<close>

theorem chinese_shape:
  assumes "ZhDate_init c y m d l = Inr z"
    and "11 \<le> length (ZHNUMS c)" "length (TIANGAN c) = 10" "length (DIZHI c) = 12"
    and "length (SHENGXIAO c) = 12"
  shows "chinese c z =
     Inr ((ZHNUMS c ! nat (y div 1000) @ ZHNUMS c ! nat (y div 100 mod 10)
             @ ZHNUMS c ! nat (y div 10 mod 10) @ ZHNUMS c ! nat (y mod 10))
          @ [24180]
          @ (if l then [38384] else [])
          @ (if m = 1 then [27491] else if m = 12 then [33098]
             else if m \<le> 10 then ZHNUMS c ! nat m else [21313] @ ZHNUMS c ! nat (m - 10))
          @ [26376]
          @ (if d \<le> 10 then [21021] @ ZHNUMS c ! nat d
             else if d < 20 then [21313] @ ZHNUMS c ! nat (d - 10)
             else if d = 20 then [20108, 21313]
             else if d < 30 then [24319] @ ZHNUMS c ! nat (d - 20)
             else [19977, 21313])
          @ [32]
          @ (TIANGAN c ! nat ((y - 1900 + 36) mod 10) @ DIZHI c ! nat ((y - 1900 + 36) mod 12))
          @ SHENGXIAO c ! nat ((y - 1900) mod 12)
          @ [24180])"
proof -
  have f: "lunar_year z = y" "lunar_month z = m" "lunar_day z = d" "leap_month z = l"
    and v: "validate c y m d l = Inr True"
    using ZhDate_init_InrD[OF assms(1)] by simp_all
  have r: "1900 \<le> y" "y \<le> 2100" "1 \<le> m" "m \<le> 12" "1 \<le> d" "d \<le> 30"
    using validate_TrueD[OF v] by simp_all
  have zy: "zh_year_loop c y [0..<4] [] =
           Inr (ZHNUMS c ! nat (y div 1000) @ ZHNUMS c ! nat (y div 100 mod 10)
                @ ZHNUMS c ! nat (y div 10 mod 10) @ ZHNUMS c ! nat (y mod 10))"
    using r(1,2) assms(2) by (intro zh_year_loop_4) simp_all
  have zn: "0 \<le> k \<Longrightarrow> k \<le> 10 \<Longrightarrow> py_index (ZHNUMS c) k = Inr (ZHNUMS c ! nat k)" for k
    using assms(2) by (intro py_index_in_range) simp_all
  have sx: "py_index (SHENGXIAO c) ((y - 1900) mod 12) = Inr (SHENGXIAO c ! nat ((y - 1900) mod 12))"
    using assms(5) by (intro py_index_in_range) simp_all
  have mo: "(if m = 1 then Inr (zm @ [27491])
            else if m = 12 then Inr (zm @ [33098])
            else if m \<le> 10 then ebind (py_index (ZHNUMS c) m) (\<lambda>glyph. Inr (zm @ glyph))
            else ebind (py_index (ZHNUMS c) (m - 10)) (\<lambda>glyph. Inr (zm @ [21313] @ glyph)))
          = Inr (zm @ (if m = 1 then [27491] else if m = 12 then [33098]
             else if m \<le> 10 then ZHNUMS c ! nat m else [21313] @ ZHNUMS c ! nat (m - 10)))" for zm
    using r(3,4) by (simp add: zn)
  have da: "(if d \<le> 10 then ebind (py_index (ZHNUMS c) d) (\<lambda>glyph. Inr ([21021] @ glyph))
            else if d < 20 then ebind (py_index (ZHNUMS c) (d - 10)) (\<lambda>glyph. Inr ([21313] @ glyph))
            else if d = 20 then Inr [20108, 21313]
            else if d < 30 then ebind (py_index (ZHNUMS c) (d - 20)) (\<lambda>glyph. Inr ([24319] @ glyph))
            else Inr [19977, 21313])
          = Inr (if d \<le> 10 then [21021] @ ZHNUMS c ! nat d
             else if d < 20 then [21313] @ ZHNUMS c ! nat (d - 10)
             else if d = 20 then [20108, 21313]
             else if d < 30 then [24319] @ ZHNUMS c ! nat (d - 20)
             else [19977, 21313])"
    using r(5,6) by (simp add: zn)
  show ?thesis
    unfolding chinese_def f zy mo da Let_def tiandi_ok[OF assms(3,4)] sx ebind_Inr
    by simp
qed


lemma glyph_tables:
  "ZHNUMS tables_1900_2100 = [[12295], [19968], [20108], [19977], [22235], [20116], [20845], [19971], [20843], [20061], [21313]]"
  "SHENGXIAO tables_1900_2100 = [[40736], [29275], [34382], [20820], [40857], [34503], [39532], [32650], [29492], [40481], [29399], [29482]]"
  "TIANGAN tables_1900_2100 = [[30002], [20057], [19993], [19969], [25098], [24049], [24218], [36763], [22764], [30328]]"
  "DIZHI tables_1900_2100 = [[23376], [19985], [23493], [21359], [36784], [24051], [21320], [26410], [30003], [37193], [25100], [20133]]"
  by (simp_all add: tables_1900_2100_def)

lemma ny_2023: "LUNARNEWYEAR tables_1900_2100 ! 123 = (2023, 1, 22)"
  by (simp add: tables_1900_2100_def)

lemma strptime_2023: "strptime (2023, 1, 22) = Inr \<lparr>toordinal = 738542, tod = 0\<rparr>"
  by (simp add: strptime_def days_in_month_def is_leap_def ymd2ord_def days_before_year_def
      days_before_month_def)

lemma init_2023_2_1:
  "ZhDate_init tables_1900_2100 2023 2 1 False =
     Inr \<lparr>lunar_year = 2023, lunar_month = 2, lunar_day = 1, leap_month = False,
          year_code = 23378, newyear = \<lparr>toordinal = 738542, tod = 0\<rparr>\<rparr>"
  by (simp add: ZhDate_init_def validate_def py_index_def codes_length nys_length code_2023
      ny_2023 strptime_2023)

theorem chinese_shape_witness:
  "chinese tables_1900_2100
     \<lparr>lunar_year = 2023, lunar_month = 2, lunar_day = 1, leap_month = False,
      year_code = 23378, newyear = \<lparr>toordinal = 738542, tod = 0\<rparr>\<rparr>
   = Inr [20108, 12295, 20108, 19977, 24180, 20108, 26376, 21021, 19968, 32,
          30328, 21359, 20820, 24180]"
  using chinese_shape [OF init_2023_2_1]
  by (simp add: glyph_tables)

section \<open>The conversions at the end of the tables\<close>

lemma decode_2100: "decode 54560 = [30, 30, 29, 30, 29, 30, 29, 30, 29, 29, 30, 29]"
  by (simp add: decode_eq regular_days_def upt_1_13 bit_iff_odd_drop_bit drop_bit_eq_div)

lemma ord2year_767037: "ord2year 767037 = 2101"
  by (simp add: ord2year_def Let_def)

lemma ord2year_767010: "ord2year 767010 = 2101"
  by (simp add: ord2year_def Let_def)

lemma init_2100_12_29:
  "ZhDate_init tables_1900_2100 2100 12 29 False =
     Inr \<lparr>lunar_year = 2100, lunar_month = 12, lunar_day = 29, leap_month = False,
          year_code = 54560, newyear = \<lparr>toordinal = 766684, tod = 0\<rparr>\<rparr>"
  by (simp add: ZhDate_init_def validate_def py_index_def codes_length nys_length code_2100
      ny_2100 strptime_2100)

lemma init_2100_12_2:
  "ZhDate_init tables_1900_2100 2100 12 2 False =
     Inr \<lparr>lunar_year = 2100, lunar_month = 12, lunar_day = 2, leap_month = False,
          year_code = 54560, newyear = \<lparr>toordinal = 766684, tod = 0\<rparr>\<rparr>"
  by (simp add: ZhDate_init_def validate_def py_index_def codes_length nys_length code_2100
      ny_2100 strptime_2100)

text \<open>
  Claim C1. Every valid lunar date of the years 1900 to 2100 converted to a Gregorian date and
  back is the same lunar date. The code fails this at the end of the table: the lunar date
  2100-12-29, which \<^verbatim>\<open>__init__\<close> accepts, is the Gregorian day 767037 of the year 2101, and
  \<^verbatim>\<open>from_datetime\<close> raises \<^verbatim>\<open>IndexError\<close> on it when it reads \<^verbatim>\<open>LUNARNEWYEAR[dt.year - 1900]\<close>.
\<close>

theorem roundtrip_lunar_2100_12_29_fails:
  "ZhDate_init tables_1900_2100 2100 12 29 False =
     Inr \<lparr>lunar_year = 2100, lunar_month = 12, lunar_day = 29, leap_month = False,
          year_code = 54560, newyear = \<lparr>toordinal = 766684, tod = 0\<rparr>\<rparr>
   \<and> to_datetime \<lparr>lunar_year = 2100, lunar_month = 12, lunar_day = 29, leap_month = False,
          year_code = 54560, newyear = \<lparr>toordinal = 766684, tod = 0\<rparr>\<rparr>
       = \<lparr>toordinal = 767037, tod = 0\<rparr>
   \<and> year_of \<lparr>toordinal = 767037, tod = 0\<rparr> = 2101
   \<and> from_datetime tables_1900_2100 \<lparr>toordinal = 767037, tod = 0\<rparr> = Inl IndexError"
  by (simp add: init_2100_12_29 to_datetime_def ZhDate_days_passed_def decode_2100 py_slice_to_def
      add_days_def from_datetime_def year_of_def ord2year_767037 py_index_def nys_length)

text \<open>
  Claim C2. Every Gregorian date from the lunar new year of 1900 to the end of the lunar year
  2100 converted to a lunar date and back is the same date. The code fails this for the
  Gregorian dates of 2101 that belong to the lunar year 2100: 2101-01-01 is day 767010, the
  lunar date 2100-12-02, and \<^verbatim>\<open>from_datetime\<close> raises \<^verbatim>\<open>IndexError\<close> on it.
\<close>

theorem roundtrip_gregorian_2101_01_01_fails:
  "strptime (2101, 1, 1) = Inr \<lparr>toordinal = 767010, tod = 0\<rparr>
   \<and> to_datetime \<lparr>lunar_year = 2100, lunar_month = 12, lunar_day = 2, leap_month = False,
          year_code = 54560, newyear = \<lparr>toordinal = 766684, tod = 0\<rparr>\<rparr>
       = \<lparr>toordinal = 767010, tod = 0\<rparr>
   \<and> from_datetime tables_1900_2100 \<lparr>toordinal = 767010, tod = 0\<rparr> = Inl IndexError"
  by (simp add: strptime_def days_in_month_def is_leap_def ymd2ord_def days_before_year_def
      days_before_month_def to_datetime_def ZhDate_days_passed_def decode_2100 py_slice_to_def
      add_days_def from_datetime_def year_of_def ord2year_767010 py_index_def nys_length)

section \<open>The Gregorian year grows with the day number\<close>

lemma div_mod_lex_mono:
  fixes a b c m :: int and f :: "int \<Rightarrow> int"
  assumes c: "0 < c" and ab: "a \<le> b"
    and bound: "\<And>x. 0 \<le> x \<Longrightarrow> x < c \<Longrightarrow> 0 \<le> f x \<and> f x < m"
    and mono: "\<And>x y. 0 \<le> x \<Longrightarrow> x \<le> y \<Longrightarrow> y < c \<Longrightarrow> f x \<le> f y"
  shows "m * (a div c) + f (a mod c) \<le> m * (b div c) + f (b mod c)"
proof -
  have q: "a div c \<le> b div c"
    using ab c by (rule zdiv_mono1)
  have ra: "0 \<le> a mod c" "a mod c < c" and rb: "0 \<le> b mod c" "b mod c < c"
    using c by simp_all
  have m0: "0 < m"
    using bound[of 0] c by linarith
  show ?thesis
  proof (cases "a div c = b div c")
    case True
    have "a = c * (a div c) + a mod c" "b = c * (b div c) + b mod c"
      by simp_all
    then have "a mod c \<le> b mod c"
      using True ab by (metis add_le_cancel_left)
    then show ?thesis
      using True mono[OF ra(1) _ rb(2)] by simp
  next
    case False
    then have "a div c + 1 \<le> b div c"
      using q by linarith
    then have "m * (a div c + 1) \<le> m * (b div c)"
      using m0 by (simp add: mult_left_mono)
    moreover have "f (a mod c) < m" "0 \<le> f (b mod c)"
      using bound[OF ra] bound[OF rb] by simp_all
    ultimately show ?thesis
      by (simp add: algebra_simps)
  qed
qed


lemma ord2year_alt:
  "ord2year n =
     400 * ((n - 1) div 146097)
     + (1 + min 399 (100 * ((n - 1) mod 146097 div 36524)
                     + (4 * ((n - 1) mod 146097 mod 36524 div 1461)
                        + min 3 ((n - 1) mod 146097 mod 36524 mod 1461 div 365))))"
proof -
  define r400 where "r400 = (n - 1) mod 146097"
  define q100 where "q100 = r400 div 36524"
  define r100 where "r100 = r400 mod 36524"
  define q4 where "q4 = r100 div 1461"
  define r4 where "r4 = r100 mod 1461"
  define q1 where "q1 = r4 div 365"
  have b400: "0 \<le> r400" "r400 < 146097"
    by (simp_all add: r400_def)
  have e100: "r400 = 36524 * q100 + r100" and b100: "0 \<le> r100" "r100 < 36524"
    by (simp_all add: q100_def r100_def)
  have e4: "r100 = 1461 * q4 + r4" and b4: "0 \<le> r4" "r4 < 1461"
    by (simp_all add: q4_def r4_def)
  have e1: "r4 = 365 * q1 + r4 mod 365" and b1: "0 \<le> r4 mod 365" "r4 mod 365 < 365"
    by (simp_all add: q1_def)
  have c100: "0 \<le> q100" "q100 \<le> 4"
    using b400 e100 b100 by linarith+
  have c4: "0 \<le> q4" "q4 \<le> 24"
    using e4 b100 b4 by linarith+
  have c1: "0 \<le> q1" "q1 \<le> 4"
    using e1 b4 b1 by linarith+
  have u: "ord2year n =
      (if q1 = 4 \<or> q100 = 4 then 400 * ((n - 1) div 146097) + 1 + q100 * 100 + q4 * 4 + q1 - 1
       else 400 * ((n - 1) div 146097) + 1 + q100 * 100 + q4 * 4 + q1)"
    unfolding ord2year_def Let_def r400_def q100_def r100_def q4_def r4_def q1_def
    by (simp only: mult.commute)
  have v: "(if q1 = 4 \<or> q100 = 4 then k + 1 + q100 * 100 + q4 * 4 + q1 - 1
            else k + 1 + q100 * 100 + q4 * 4 + q1)
         = k + (1 + min 399 (100 * q100 + (4 * q4 + min 3 q1)))" for k
  proof (cases "q100 = 4")
    case True
    then have "r100 = 0"
      using b400 e100 b100 by linarith
    then have "q4 = 0 \<and> q1 = 0"
      by (simp add: q4_def q1_def r4_def)
    with True show ?thesis
      by simp
  next
    case False
    then have "q100 \<le> 3"
      using c100 by linarith
    then have le: "100 * q100 + (4 * q4 + min 3 q1) \<le> 399"
      using c4 by (simp add: min_def)
    show ?thesis
    proof (cases "q1 = 4")
      case True
      with False le show ?thesis by simp
    next
      case q: False
      then have "q1 \<le> 3"
        using c1 by linarith
      with False q le show ?thesis by simp
    qed
  qed
  show ?thesis
    unfolding u v unfolding r400_def q100_def r100_def q4_def r4_def q1_def ..
qed


lemma ord2year_mono:
  assumes "a \<le> b"
  shows "ord2year a \<le> ord2year b"
proof -
  define E :: "int \<Rightarrow> int" where "E = (\<lambda>x. min 3 (x div 365))"
  define H :: "int \<Rightarrow> int" where "H = (\<lambda>x. 4 * (x div 1461) + E (x mod 1461))"
  define G :: "int \<Rightarrow> int" where "G = (\<lambda>x. min 399 (100 * (x div 36524) + H (x mod 36524)))"
  have Eb: "0 \<le> E x \<and> E x < 4" if "0 \<le> x" for x
  proof -
    have "0 \<le> x div 365"
      using that by (simp add: pos_imp_zdiv_nonneg_iff)
    then show ?thesis
      unfolding E_def by linarith
  qed
  have Em: "E x \<le> E y" if "x \<le> y" for x y
  proof -
    have "x div 365 \<le> y div 365"
      using that by (intro zdiv_mono1) simp_all
    then show ?thesis
      unfolding E_def by linarith
  qed
  have Hm: "H x \<le> H y" if "0 \<le> x" "x \<le> y" for x y
    unfolding H_def
  proof (rule div_mod_lex_mono)
    show "(0::int) < 1461" by simp
    show "x \<le> y" by fact
    show "0 \<le> E u \<and> E u < 4" if "0 \<le> u" for u
      using that by (rule Eb)
    show "E u \<le> E v" if "u \<le> v" for u v
      using that by (rule Em)
  qed
  have Hb: "0 \<le> H x \<and> H x < 100" if "0 \<le> x" "x < 36524" for x
  proof -
    have "x = 1461 * (x div 1461) + x mod 1461" "0 \<le> x mod 1461" "x mod 1461 < 1461"
      by simp_all
    then have "0 \<le> x div 1461" "x div 1461 \<le> 24"
      using that by linarith+
    then show ?thesis
      using Eb[of "x mod 1461"] unfolding H_def by simp
  qed
  have Gm: "G x \<le> G y" if "0 \<le> x" "x \<le> y" for x y
  proof -
    have "100 * (x div 36524) + H (x mod 36524) \<le> 100 * (y div 36524) + H (y mod 36524)"
    proof (rule div_mod_lex_mono)
      show "(0::int) < 36524" by simp
      show "x \<le> y" by fact
      show "0 \<le> H u \<and> H u < 100" if "0 \<le> u" "u < 36524" for u
        using that by (rule Hb)
      show "H u \<le> H v" if "0 \<le> u" "u \<le> v" for u v
        using that by (rule Hm)
    qed
    then show ?thesis
      unfolding G_def by linarith
  qed
  have Gb: "0 \<le> G x \<and> G x < 400" if "0 \<le> x" for x
  proof -
    have "0 \<le> x div 36524"
      using that by (simp add: pos_imp_zdiv_nonneg_iff)
    moreover have "0 \<le> H (x mod 36524)"
      using Hb[of "x mod 36524"] by simp
    ultimately show ?thesis
      unfolding G_def by linarith
  qed
  have "400 * ((a - 1) div 146097) + G ((a - 1) mod 146097)
        \<le> 400 * ((b - 1) div 146097) + G ((b - 1) mod 146097)"
  proof (rule div_mod_lex_mono)
    show "(0::int) < 146097" by simp
    show "a - 1 \<le> b - 1" using assms by simp
    show "0 \<le> G u \<and> G u < 400" if "0 \<le> u" for u
      using that by (rule Gb)
    show "G u \<le> G v" if "0 \<le> u" "u \<le> v" for u v
      using that by (rule Gm)
  qed
  then show ?thesis
    unfolding ord2year_alt G_def H_def E_def by linarith
qed

lemma year_of_mono: "toordinal a \<le> toordinal b \<Longrightarrow> year_of a \<le> year_of b"
  unfolding year_of_def by (rule ord2year_mono)

section \<open>The month loop of \<^verbatim>\<open>from_datetime\<close> and the position it finds\<close>

lemma accumulate_loop_finds:
  assumes "\<forall>x\<in>set xs. 0 < x" "acc \<le> dp" "dp < acc + sum_list xs"
  shows "\<exists>k<length xs.
           accumulate_loop dp pos acc xs = Some (pos + int k, acc + sum_list (take (Suc k) xs))
         \<and> acc + sum_list (take k xs) \<le> dp \<and> dp < acc + sum_list (take (Suc k) xs)"
  using assms
proof (induction xs arbitrary: pos acc)
  case Nil
  then show ?case by simp
next
  case (Cons x xs)
  show ?case
  proof (cases "dp + 1 \<le> acc + x")
    case True
    then have "accumulate_loop dp pos acc (x # xs) = Some (pos + int 0, acc + sum_list (take (Suc 0) (x # xs)))"
      by simp
    moreover have "acc + sum_list (take 0 (x # xs)) \<le> dp" "dp < acc + sum_list (take (Suc 0) (x # xs))"
      using Cons.prems(2) True by simp_all
    ultimately show ?thesis
      by (intro exI[of _ 0]) simp
  next
    case False
    then have a: "acc + x \<le> dp" by simp
    have b: "dp < (acc + x) + sum_list xs"
      using Cons.prems(3) by simp
    have c: "\<forall>x\<in>set xs. 0 < x"
      using Cons.prems(1) by simp
    obtain k where k: "k < length xs"
      "accumulate_loop dp (pos + 1) (acc + x) xs = Some (pos + 1 + int k, acc + x + sum_list (take (Suc k) xs))"
      "acc + x + sum_list (take k xs) \<le> dp" "dp < acc + x + sum_list (take (Suc k) xs)"
      using Cons.IH[OF c a b, of "pos + 1"] by blast
    have "accumulate_loop dp pos acc (x # xs) = accumulate_loop dp (pos + 1) (acc + x) xs"
      using False by simp
    then show ?thesis
      using k by (intro exI[of _ "Suc k"]) (simp add: add.assoc)
  qed
qed

lemma decode_nth:
  assumes "code AND 15 \<le> 12" "k < length (decode code)"
  shows "decode code ! k =
           (if code AND 15 = 0 \<or> int k < (code AND 15) then regular_days code ! k
            else if int k = (code AND 15) then (if drop_bit 16 code \<noteq> 0 then 30 else 29)
            else regular_days code ! (k - 1))"
proof (cases "code AND 15 = 0")
  case True
  then show ?thesis by (simp add: decode_eq)
next
  case False
  define K where "K = nat (code AND 15)"
  have K: "K \<le> length (regular_days code)" "int K = code AND 15"
    using assms(1) and_15_bounds[of code] by (simp_all add: K_def length_regular_days)
  have d: "decode code = take K (regular_days code) @ (if drop_bit 16 code \<noteq> 0 then 30 else 29) # drop K (regular_days code)"
    using False by (simp add: decode_eq K_def)
  consider "k < K" | "k = K" | "K < k" by linarith
  then show ?thesis
  proof cases
    case 1
    then show ?thesis
      using False K nth_insert_lt[OF 1 K(1)] unfolding d by simp
  next
    case 2
    then show ?thesis
      using False K nth_insert_eq[OF K(1)] unfolding d by simp
  next
    case 3
    then show ?thesis
      using False K nth_insert_gt[OF 3 K(1)] unfolding d by simp
  qed
qed

lemma decode_nth_bounds:
  assumes "k < length (decode code)"
  shows "29 \<le> decode code ! k \<and> decode code ! k \<le> 30"
  using set_decode[of "decode code ! k" code] assms nth_mem by fastforce

lemma decode_positive: "\<forall>x\<in>set (decode code). 0 < x"
  using set_decode by fastforce


lemma slot_valid:
  assumes len: "length (LUNARYEARCODE c) = 201"
    and y: "1900 \<le> y" "y \<le> 2100"
    and code: "LUNARYEARCODE c ! nat (y - 1900) = code"
    and packed: "0 \<le> code" "code < 2 ^ 17" "code AND 15 \<le> 12"
    and k: "k < length (decode code)"
    and d: "1 \<le> d" "d \<le> decode code ! k"
  shows "validate c y (if code AND 15 = 0 \<or> int k + 1 \<le> (code AND 15) then int k + 1 else int k) d
           (code AND 15 \<noteq> 0 \<and> int k + 1 = (code AND 15) + 1) = Inr True"
proof -
  define L where "L = code AND 15"
  have L: "0 \<le> L" "L \<le> 12"
    using packed(3) and_15_bounds[of code] by (simp_all add: L_def)
  have kl: "int k < (if L = 0 then 12 else 13)"
    using k unfolding length_decode L_def by (cases "code AND 15 = 0") simp_all
  have d30: "d \<le> 30"
    using d(2) decode_nth_bounds[OF k] by linarith
  have full: "decode code ! k = 30" if "d = 30"
    using that d(2) decode_nth_bounds[OF k] by linarith
  have nth: "decode code ! k =
           (if L = 0 \<or> int k < L then regular_days code ! k
            else if int k = L then (if drop_bit 16 code \<noteq> 0 then 30 else 29)
            else regular_days code ! (k - 1))"
    using decode_nth[OF packed(3) k] by (simp add: L_def)
  show ?thesis
  proof (cases "L \<noteq> 0 \<and> int k = L")
    case True
    have "drop_bit 16 code = 1" if "d = 30"
      using full[OF that] nth True drop_bit_16_cases[OF packed(1,2)] by (auto split: if_splits)
    then show ?thesis
      using validate_in_range[OF len y, of "int k" d True] True L d d30 code
      by (simp add: L_def Let_def)
  next
    case False
    define m where "m = (if L = 0 \<or> int k + 1 \<le> L then int k + 1 else int k)"
    have m: "1 \<le> m" "m \<le> 12"
      using False kl L by (auto simp: m_def split: if_splits)
    have n: "nat (int k - 1) = k - 1" "nat (int k + 1 - 1) = k"
      by simp_all
    have idx: "decode code ! k = regular_days code ! nat (m - 1)"
    proof (cases "L = 0 \<or> int k + 1 \<le> L")
      case True
      then show ?thesis
        using nth by (auto simp: m_def)
    next
      case gt: False
      then have "\<not> (L = 0 \<or> int k < L)" "int k \<noteq> L"
        using False by auto
      then show ?thesis
        using nth gt by (simp add: m_def n)
    qed
    have "nat (m - 1) < 12"
      using m by simp
    then have "regular_days code ! nat (m - 1) = (if bit code (15 - nat (m - 1)) then 30 else 29)"
      by (rule regular_days_nth)
    moreover have "15 - nat (m - 1) = nat (12 - m + 4)"
      using m by simp
    ultimately have "bit code (nat (12 - m + 4))" if "d = 30"
      using full[OF that] idx by (simp split: if_splits)
    moreover have "d \<le> 29 \<or> d = 30"
      using d30 by linarith
    ultimately have "validate c y m d False = Inr True"
      using validate_in_range[OF len y m d(1) d30, of False] code by (auto simp: Let_def)
    moreover have "(code AND 15 \<noteq> 0 \<and> int k + 1 = (code AND 15) + 1) = False"
      using False unfolding L_def by auto
    ultimately show ?thesis
      unfolding m_def L_def by (simp only:)
  qed
qed

section \<open>\<^verbatim>\<open>from_datetime\<close> returns a date of the right lunar year\<close>

lemma strptime_tod: "strptime s = Inr dt \<Longrightarrow> tod dt = 0"
  by (cases s) (auto simp: strptime_def split: if_splits)

lemma later_midnight: "tod ny = 0 \<Longrightarrow> later ny dt = (toordinal dt < toordinal ny)"
  by (auto simp: later_def)

lemma delta_days_midnight: "tod ny = 0 \<Longrightarrow> delta_days dt ny = toordinal dt - toordinal ny"
  by (simp add: delta_days_def)

lemma sum_list_take_Suc:
  "k < length xs \<Longrightarrow> sum_list (take (Suc k) xs) = sum_list (take k xs) + (xs ! k :: int)"
  by (simp add: take_Suc_conv_app_nth)

lemma from_datetime_in_year:
  assumes lens: "length (LUNARNEWYEAR c) = 201" "length (LUNARYEARCODE c) = 201"
    and Y: "1900 \<le> year_of dt" "year_of dt \<le> 2100"
    and this_ny: "strptime (LUNARNEWYEAR c ! nat (year_of dt - 1900)) = Inr this_ny"
    and y: "y = year_of dt - (if later this_ny dt then 1 else 0)" "1900 \<le> y"
    and ny: "strptime (LUNARNEWYEAR c ! nat (y - 1900)) = Inr ny"
    and code: "LUNARYEARCODE c ! nat (y - 1900) = code"
    and packed: "0 \<le> code" "code < 2 ^ 17" "code AND 15 \<le> 12"
    and range: "toordinal ny \<le> toordinal dt" "toordinal dt < toordinal ny + sum_list (decode code)"
  shows "\<exists>k<length (decode code).
           from_datetime c dt =
             Inr \<lparr>lunar_year = y,
                  lunar_month = (if code AND 15 = 0 \<or> int k + 1 \<le> (code AND 15) then int k + 1 else int k),
                  lunar_day = toordinal dt - toordinal ny - sum_list (take k (decode code)) + 1,
                  leap_month = (code AND 15 \<noteq> 0 \<and> int k + 1 = (code AND 15) + 1),
                  year_code = code, newyear = ny\<rparr>
         \<and> sum_list (take k (decode code)) \<le> toordinal dt - toordinal ny
         \<and> toordinal dt - toordinal ny < sum_list (take (Suc k) (decode code))"
proof -
  define dp where "dp = toordinal dt - toordinal ny"
  have y2: "y \<le> 2100"
    using y(1) Y(2) by (simp split: if_splits)
  have i1: "py_index (LUNARNEWYEAR c) (year_of dt - 1900) = Inr (LUNARNEWYEAR c ! nat (year_of dt - 1900))"
    using lens(1) Y by (intro py_index_in_range) simp_all
  have i2: "py_index (LUNARNEWYEAR c) (y - 1900) = Inr (LUNARNEWYEAR c ! nat (y - 1900))"
    using lens(1) y(2) y2 by (intro py_index_in_range) simp_all
  have i3: "py_index (LUNARYEARCODE c) (y - 1900) = Inr code"
    using lens(2) y(2) y2 py_index_in_range[of "y - 1900" "LUNARYEARCODE c"] code by simp
  have dd: "delta_days dt ny = dp"
    using delta_days_midnight[OF strptime_tod[OF ny]] by (simp add: dp_def)
  obtain k where k: "k < length (decode code)"
    and loop: "accumulate_loop dp 0 0 (decode code) = Some (0 + int k, 0 + sum_list (take (Suc k) (decode code)))"
    and lo: "0 + sum_list (take k (decode code)) \<le> dp"
    and hi: "dp < 0 + sum_list (take (Suc k) (decode code))"
    using accumulate_loop_finds[OF decode_positive, of 0 dp code 0] range
    by (auto simp: dp_def)
  have i4: "py_index (decode code) (int k) = Inr (decode code ! k)"
    using k py_index_in_range[of "int k" "decode code"] by simp
  define d where "d = decode code ! k - (sum_list (take (Suc k) (decode code)) - dp) + 1"
  have d: "d = dp - sum_list (take k (decode code)) + 1"
    by (simp add: d_def sum_list_take_Suc[OF k])
  have d1: "1 \<le> d" "d \<le> decode code ! k"
    using lo hi by (simp_all add: d sum_list_take_Suc[OF k])
  have v: "validate c y (if code AND 15 = 0 \<or> int k + 1 \<le> (code AND 15) then int k + 1 else int k) d
           (code AND 15 \<noteq> 0 \<and> int k + 1 = (code AND 15) + 1) = Inr True"
    using slot_valid[OF lens(2) y(2) y2 code packed k d1] .
  have init: "ZhDate_init c y (if code AND 15 = 0 \<or> int k + 1 \<le> (code AND 15) then int k + 1 else int k) d
           (code AND 15 \<noteq> 0 \<and> int k + 1 = (code AND 15) + 1)
        = Inr \<lparr>lunar_year = y,
                  lunar_month = (if code AND 15 = 0 \<or> int k + 1 \<le> (code AND 15) then int k + 1 else int k),
                  lunar_day = d,
                  leap_month = (code AND 15 \<noteq> 0 \<and> int k + 1 = (code AND 15) + 1),
                  year_code = code, newyear = ny\<rparr>"
    using ZhDate_init_in_table[OF i3 i2 ny v] by simp
  have "from_datetime c dt = ZhDate_init c y (if code AND 15 = 0 \<or> int k + 1 \<le> (code AND 15) then int k + 1 else int k) d
           (code AND 15 \<noteq> 0 \<and> int k + 1 = (code AND 15) + 1)"
    unfolding from_datetime_def Let_def i1 ebind_Inr this_ny y(1)[symmetric] i2 ny dd i3 loop
    by (simp add: i4 d_def)
  then show ?thesis
    using k lo hi init unfolding d dp_def by auto
qed


lemma year_entry_okD:
  assumes "year_entry_ok c i"
  obtains ny where "strptime (LUNARNEWYEAR c ! i) = Inr ny"
    and "year_of ny = 1900 + int i"
    and "0 \<le> LUNARYEARCODE c ! i" "LUNARYEARCODE c ! i < 2 ^ 17" "(LUNARYEARCODE c ! i) AND 15 \<le> 12"
    and "year_of (add_days ny (sum_list (decode (LUNARYEARCODE c ! i)))) = 1901 + int i"
    and "i < 200 \<Longrightarrow>
         strptime (LUNARNEWYEAR c ! Suc i) = Inr (add_days ny (sum_list (decode (LUNARYEARCODE c ! i))))"
  using assms unfolding year_entry_ok_def Let_def
  by (auto split: sum.splits)

lemma toordinal_add_days [simp]: "toordinal (add_days dt n) = toordinal dt + n"
  by (simp add: add_days_def)

lemma from_datetime_this_year:
  assumes lens: "length (LUNARNEWYEAR c) = 201" "length (LUNARYEARCODE c) = 201"
    and Y: "1900 \<le> year_of dt" "year_of dt \<le> 2100"
    and ok: "year_entry_ok c (nat (year_of dt - 1900))"
    and ny: "strptime (LUNARNEWYEAR c ! nat (year_of dt - 1900)) = Inr ny"
    and notbefore: "\<not> later ny dt"
    and code: "code = LUNARYEARCODE c ! nat (year_of dt - 1900)"
  shows "\<exists>k<length (decode code).
           from_datetime c dt =
             Inr \<lparr>lunar_year = year_of dt,
                  lunar_month = (if code AND 15 = 0 \<or> int k + 1 \<le> (code AND 15) then int k + 1 else int k),
                  lunar_day = toordinal dt - toordinal ny - sum_list (take k (decode code)) + 1,
                  leap_month = (code AND 15 \<noteq> 0 \<and> int k + 1 = (code AND 15) + 1),
                  year_code = code, newyear = ny\<rparr>
         \<and> sum_list (take k (decode code)) \<le> toordinal dt - toordinal ny
         \<and> toordinal dt - toordinal ny < sum_list (take (Suc k) (decode code))"
proof -
  obtain ny' where e: "strptime (LUNARNEWYEAR c ! nat (year_of dt - 1900)) = Inr ny'"
    "0 \<le> code" "code < 2 ^ 17" "code AND 15 \<le> 12"
    "year_of (add_days ny' (sum_list (decode code))) = 1901 + int (nat (year_of dt - 1900))"
    using year_entry_okD[OF ok] unfolding code by metis
  have [simp]: "ny' = ny"
    using e(1) ny by simp
  have lo: "toordinal ny \<le> toordinal dt"
    using notbefore later_midnight[OF strptime_tod[OF ny], of dt] by simp
  have hi: "toordinal dt < toordinal ny + sum_list (decode code)"
  proof (rule ccontr)
    assume "\<not> ?thesis"
    then have "toordinal (add_days ny (sum_list (decode code))) \<le> toordinal dt"
      by simp
    then have "year_of (add_days ny (sum_list (decode code))) \<le> year_of dt"
      by (rule year_of_mono)
    then show False
      using e(5) Y by simp
  qed
  show ?thesis
    by (rule from_datetime_in_year[OF lens Y ny _ _ ny code[symmetric] e(2-4) lo hi])
       (use notbefore Y in simp_all)
qed

lemma from_datetime_prev_year:
  assumes lens: "length (LUNARNEWYEAR c) = 201" "length (LUNARYEARCODE c) = 201"
    and Y: "1901 \<le> year_of dt" "year_of dt \<le> 2100"
    and ok: "year_entry_ok c (nat (year_of dt - 1901))"
    and ny: "strptime (LUNARNEWYEAR c ! nat (year_of dt - 1900)) = Inr ny"
    and before: "later ny dt"
    and code: "code = LUNARYEARCODE c ! nat (year_of dt - 1901)"
  shows "\<exists>k<length (decode code). \<exists>pny.
           from_datetime c dt =
             Inr \<lparr>lunar_year = year_of dt - 1,
                  lunar_month = (if code AND 15 = 0 \<or> int k + 1 \<le> (code AND 15) then int k + 1 else int k),
                  lunar_day = toordinal dt - toordinal pny - sum_list (take k (decode code)) + 1,
                  leap_month = (code AND 15 \<noteq> 0 \<and> int k + 1 = (code AND 15) + 1),
                  year_code = code, newyear = pny\<rparr>
         \<and> toordinal ny = toordinal pny + sum_list (decode code)
         \<and> sum_list (take k (decode code)) \<le> toordinal dt - toordinal pny
         \<and> toordinal dt - toordinal pny < sum_list (take (Suc k) (decode code))"
proof -
  define i where "i = nat (year_of dt - 1901)"
  have i: "i < 200" "Suc i = nat (year_of dt - 1900)" "int i = year_of dt - 1901"
    "nat (year_of dt - 1 - 1900) = i"
    using Y by (simp_all add: i_def)
  obtain pny where e: "strptime (LUNARNEWYEAR c ! i) = Inr pny"
    "year_of pny = 1900 + int i"
    "0 \<le> code" "code < 2 ^ 17" "code AND 15 \<le> 12"
    "strptime (LUNARNEWYEAR c ! Suc i) = Inr (add_days pny (sum_list (decode code)))"
    using year_entry_okD[OF ok] i(1) unfolding code i_def by metis
  have n: "ny = add_days pny (sum_list (decode code))"
    using e(6) ny unfolding i(2) by simp
  have hi: "toordinal dt < toordinal pny + sum_list (decode code)"
    using before later_midnight[OF strptime_tod[OF ny], of dt] by (simp add: n)
  have lo: "toordinal pny \<le> toordinal dt"
  proof (rule ccontr)
    assume "\<not> ?thesis"
    then have "toordinal dt \<le> toordinal pny"
      by simp
    then have "year_of dt \<le> year_of pny"
      by (rule year_of_mono)
    then show False
      using e(2) i(3) by simp
  qed
  have Y0: "1900 \<le> year_of dt"
    using Y(1) by simp
  have "\<exists>k<length (decode code).
           from_datetime c dt =
             Inr \<lparr>lunar_year = year_of dt - 1,
                  lunar_month = (if code AND 15 = 0 \<or> int k + 1 \<le> (code AND 15) then int k + 1 else int k),
                  lunar_day = toordinal dt - toordinal pny - sum_list (take k (decode code)) + 1,
                  leap_month = (code AND 15 \<noteq> 0 \<and> int k + 1 = (code AND 15) + 1),
                  year_code = code, newyear = pny\<rparr>
         \<and> sum_list (take k (decode code)) \<le> toordinal dt - toordinal pny
         \<and> toordinal dt - toordinal pny < sum_list (take (Suc k) (decode code))"
    by (rule from_datetime_in_year[OF lens Y0 Y(2) ny _ _ _ _ e(3-5) lo hi])
       (use before Y e(1) in \<open>simp_all add: i code i_def\<close>)
  then show ?thesis
    using n by auto
qed

section \<open>The lunar year that \<^verbatim>\<open>from_datetime\<close> assigns\<close>

lemma sum_list_take_le:
  assumes "\<forall>x\<in>set xs. 0 < (x::int)"
  shows "sum_list (take j xs) \<le> sum_list xs"
proof -
  have "sum_list xs = sum_list (take j xs) + sum_list (drop j xs)"
    by (metis append_take_drop_id sum_list_append)
  moreover have "0 \<le> sum_list (drop j xs)"
    using assms by (intro sum_list_nonneg) (fastforce dest: in_set_dropD)
  ultimately show ?thesis by simp
qed

lemma first_slot:
  assumes pos: "\<forall>x\<in>set xs. 0 < (x::int)" and k: "k < length xs"
    and lo: "sum_list (take k xs) \<le> 0"
  shows "k = 0"
proof (rule ccontr)
  assume "k \<noteq> 0"
  then obtain j where j: "k = Suc j" by (cases k) auto
  have "j < length xs" using k j by simp
  then have "sum_list (take k xs) = sum_list (take j xs) + xs ! j"
    unfolding j by (rule sum_list_take_Suc)
  moreover have "0 \<le> sum_list (take j xs)"
    using pos by (intro sum_list_nonneg) (fastforce dest: in_set_takeD)
  moreover have "0 < xs ! j"
    using pos \<open>j < length xs\<close> by simp
  ultimately show False using lo by simp
qed

lemma last_slot:
  assumes pos: "\<forall>x\<in>set xs. 0 < (x::int)" and k: "k < length xs"
    and hi: "sum_list xs - 1 < sum_list (take (Suc k) xs)"
  shows "Suc k = length xs"
proof (rule ccontr)
  assume "Suc k \<noteq> length xs"
  then have s: "Suc k < length xs" using k by simp
  have "sum_list (take (Suc (Suc k)) xs) = sum_list (take (Suc k) xs) + xs ! Suc k"
    using s by (rule sum_list_take_Suc)
  moreover have "sum_list (take (Suc (Suc k)) xs) \<le> sum_list xs"
    using pos by (rule sum_list_take_le)
  moreover have "0 < xs ! Suc k"
    using pos s by simp
  ultimately show False using hi by simp
qed

lemma last_slot_day:
  assumes "Suc k = length xs"
  shows "sum_list xs - 1 - sum_list (take k xs) + 1 = (last xs :: int)"
proof -
  have k: "k < length xs" using assms by simp
  have "sum_list (take (Suc k) xs) = sum_list (take k xs) + xs ! k"
    using k by (rule sum_list_take_Suc)
  moreover have "take (Suc k) xs = xs" using assms by simp
  moreover have "xs ! k = last xs"
    using assms by (metis diff_Suc_1 last_conv_nth length_0_conv nat.simps(3))
  ultimately show ?thesis by simp
qed

text \<open>
  The entries of 2023 and 2024 in the tables of 1900 to 2100: lunar 2023 begins on
  2023-01-22 and has a leap second month, lunar 2024 begins on 2024-02-10.
\<close>

lemma ny_2024: "LUNARNEWYEAR tables_1900_2100 ! 124 = (2024, 2, 10)"
  by (simp add: tables_1900_2100_def)

lemma ny_2025: "LUNARNEWYEAR tables_1900_2100 ! 125 = (2025, 1, 29)"
  by (simp add: tables_1900_2100_def)

lemma code_2024: "LUNARYEARCODE tables_1900_2100 ! 124 = 19296"
  by (simp add: tables_1900_2100_def)

lemma strptime_2024: "strptime (2024, 2, 10) = Inr \<lparr>toordinal = 738926, tod = 0\<rparr>"
  by (simp add: strptime_def days_in_month_def is_leap_def ymd2ord_def days_before_year_def
      days_before_month_def)

lemma strptime_2025: "strptime (2025, 1, 29) = Inr \<lparr>toordinal = 739280, tod = 0\<rparr>"
  by (simp add: strptime_def days_in_month_def is_leap_def ymd2ord_def days_before_year_def
      days_before_month_def)

lemma decode_2024: "decode 19296 = [29, 30, 29, 29, 30, 29, 30, 30, 29, 30, 30, 29]"
  by (simp add: decode_eq regular_days_def upt_1_13 bit_iff_odd_drop_bit drop_bit_eq_div)

lemma ord2year_738542: "ord2year 738542 = 2023"
  by (simp add: ord2year_def Let_def)

lemma ord2year_738925: "ord2year 738925 = 2024"
  by (simp add: ord2year_def Let_def)

lemma ord2year_738926: "ord2year 738926 = 2024"
  by (simp add: ord2year_def Let_def)

lemma ord2year_739280: "ord2year 739280 = 2025"
  by (simp add: ord2year_def Let_def)

lemma entry_ok_2023: "year_entry_ok tables_1900_2100 123"
  by (simp add: year_entry_ok_def Let_def ny_2023 strptime_2023 code_2023 decode_2023
      ny_2024 strptime_2024 add_days_def year_of_def ord2year_738542 ord2year_738926)

lemma entry_ok_2024: "year_entry_ok tables_1900_2100 124"
  by (simp add: year_entry_ok_def Let_def ny_2024 strptime_2024 code_2024 decode_2024
      ny_2025 strptime_2025 add_days_def year_of_def ord2year_738926 ord2year_739280)

text \<open>
  For a Gregorian date \<open>dt\<close> of the years 1900 to 2100, \<^verbatim>\<open>from_datetime\<close> returns a date whose
  lunar year is \<open>dt.year\<close>, or \<open>dt.year - 1\<close> when the lunar new year of \<open>dt.year\<close> is later
  than \<open>dt\<close>; the day of the lunar new year becomes month 1, day 1, not leap, and the day
  before it becomes the last day of the last month of the lunar year before. The tables have
  their 201 entries, and the entries of the lunar year of \<open>dt\<close> (and of \<open>dt.year\<close>) are as
  \<open>year_entry_ok\<close> asks; a date before the lunar new year of 1900 is outside the tables.
\<close>

lemma from_datetime_lunar_year:
  assumes lens: "length (LUNARNEWYEAR c) = 201" "length (LUNARYEARCODE c) = 201"
    and Y: "1900 \<le> year_of dt" "year_of dt \<le> 2100"
    and ok: "year_entry_ok c (nat (year_of dt - 1900))"
    and ny: "strptime (LUNARNEWYEAR c ! nat (year_of dt - 1900)) = Inr ny"
    and prev: "later ny dt \<Longrightarrow> 1901 \<le> year_of dt \<and> year_entry_ok c (nat (year_of dt - 1901))"
  shows "\<exists>z. from_datetime c dt = Inr z
           \<and> lunar_year z = (if later ny dt then year_of dt - 1 else year_of dt)
           \<and> (toordinal dt = toordinal ny \<longrightarrow>
                 lunar_month z = 1 \<and> lunar_day z = 1 \<and> \<not> leap_month z)
           \<and> (toordinal dt = toordinal ny - 1 \<longrightarrow>
                 lunar_month z = 12 \<and> lunar_day z = last (decode (year_code z))
                 \<and> leap_month z = (year_code z AND 15 = 12))"
proof (cases "later ny dt")
  case False
  define code where "code = LUNARYEARCODE c ! nat (year_of dt - 1900)"
  obtain k where k: "k < length (decode code)"
    and z: "from_datetime c dt =
             Inr \<lparr>lunar_year = year_of dt,
                  lunar_month = (if code AND 15 = 0 \<or> int k + 1 \<le> (code AND 15) then int k + 1 else int k),
                  lunar_day = toordinal dt - toordinal ny - sum_list (take k (decode code)) + 1,
                  leap_month = (code AND 15 \<noteq> 0 \<and> int k + 1 = (code AND 15) + 1),
                  year_code = code, newyear = ny\<rparr>"
    and lo: "sum_list (take k (decode code)) \<le> toordinal dt - toordinal ny"
    and hi: "toordinal dt - toordinal ny < sum_list (take (Suc k) (decode code))"
    using from_datetime_this_year[OF lens Y ok ny False code_def] by blast
  have ge: "toordinal ny \<le> toordinal dt"
    using False later_midnight[OF strptime_tod[OF ny], of dt] by simp
  have first: "k = 0" if "toordinal dt = toordinal ny"
    using first_slot[OF decode_positive k] lo that by simp
  have L: "code AND 15 = 0 \<or> 1 \<le> (code AND 15)"
    using and_15_bounds[of code] by linarith
  show ?thesis
    unfolding z using False ge first L by auto
next
  case True
  define code where "code = LUNARYEARCODE c ! nat (year_of dt - 1901)"
  have p: "1901 \<le> year_of dt" "year_entry_ok c (nat (year_of dt - 1901))"
    using prev[OF True] by simp_all
  obtain k pny where k: "k < length (decode code)"
    and z: "from_datetime c dt =
             Inr \<lparr>lunar_year = year_of dt - 1,
                  lunar_month = (if code AND 15 = 0 \<or> int k + 1 \<le> (code AND 15) then int k + 1 else int k),
                  lunar_day = toordinal dt - toordinal pny - sum_list (take k (decode code)) + 1,
                  leap_month = (code AND 15 \<noteq> 0 \<and> int k + 1 = (code AND 15) + 1),
                  year_code = code, newyear = pny\<rparr>"
    and n: "toordinal ny = toordinal pny + sum_list (decode code)"
    and lo: "sum_list (take k (decode code)) \<le> toordinal dt - toordinal pny"
    and hi: "toordinal dt - toordinal pny < sum_list (take (Suc k) (decode code))"
    using from_datetime_prev_year[OF lens p(1) Y(2) p(2) ny True code_def] by blast
  have lt: "toordinal dt < toordinal ny"
    using True later_midnight[OF strptime_tod[OF ny], of dt] by simp
  have packed: "code AND 15 \<le> 12"
    using year_entry_okD[OF p(2)] unfolding code_def by metis
  have b: "0 \<le> code AND 15"
    using and_15_bounds[of code] by simp
  have last: "lunar_month z' = 12 \<and> lunar_day z' = last (decode code) \<and> leap_month z' = (code AND 15 = 12)"
    if eq: "toordinal dt = toordinal ny - 1"
      and z': "z' = \<lparr>lunar_year = year_of dt - 1,
                  lunar_month = (if code AND 15 = 0 \<or> int k + 1 \<le> (code AND 15) then int k + 1 else int k),
                  lunar_day = toordinal dt - toordinal pny - sum_list (take k (decode code)) + 1,
                  leap_month = (code AND 15 \<noteq> 0 \<and> int k + 1 = (code AND 15) + 1),
                  year_code = code, newyear = pny\<rparr>" for z'
  proof -
    have dp: "toordinal dt - toordinal pny = sum_list (decode code) - 1"
      using eq n by simp
    have sk: "Suc k = length (decode code)"
      using last_slot[OF decode_positive k] hi unfolding dp by simp
    have day: "toordinal dt - toordinal pny - sum_list (take k (decode code)) + 1 = last (decode code)"
      unfolding dp using last_slot_day[OF sk] by simp
    show ?thesis
    proof (cases "code AND 15 = 0")
      case True
      then have "k = 11" using sk by (simp add: length_decode)
      then show ?thesis using True day by (simp add: z')
    next
      case False
      then have "k = 12" using sk by (simp add: length_decode)
      then show ?thesis using False day packed b by (auto simp add: z')
    qed
  qed
  show ?thesis
    unfolding z using True lt last[OF _ refl] by auto
qed

lemma from_datetime_lunar_year_2024:
  "(\<exists>z. from_datetime tables_1900_2100 \<lparr>toordinal = 738926, tod = 0\<rparr> = Inr z
        \<and> lunar_year z = 2024 \<and> lunar_month z = 1 \<and> lunar_day z = 1 \<and> \<not> leap_month z)
   \<and> (\<exists>z. from_datetime tables_1900_2100 \<lparr>toordinal = 738925, tod = 0\<rparr> = Inr z
        \<and> lunar_year z = 2023 \<and> lunar_month z = 12
        \<and> lunar_day z = last (decode (year_code z)))"
proof -
  have a: "\<exists>z. from_datetime tables_1900_2100 \<lparr>toordinal = 738926, tod = 0\<rparr> = Inr z
        \<and> lunar_year z = 2024 \<and> lunar_month z = 1 \<and> lunar_day z = 1 \<and> \<not> leap_month z"
    using from_datetime_lunar_year [OF nys_length codes_length,
        of "\<lparr>toordinal = 738926, tod = 0\<rparr>" "\<lparr>toordinal = 738926, tod = 0\<rparr>"]
    by (simp add: year_of_def ord2year_738926 entry_ok_2024 ny_2024 strptime_2024 later_def)
  have b: "\<exists>z. from_datetime tables_1900_2100 \<lparr>toordinal = 738925, tod = 0\<rparr> = Inr z
        \<and> lunar_year z = 2023 \<and> lunar_month z = 12
        \<and> lunar_day z = last (decode (year_code z))"
    using from_datetime_lunar_year [OF nys_length codes_length,
        of "\<lparr>toordinal = 738925, tod = 0\<rparr>" "\<lparr>toordinal = 738926, tod = 0\<rparr>"]
    by (simp add: year_of_def ord2year_738925 entry_ok_2024 entry_ok_2023 ny_2024 strptime_2024
        later_def) blast
  show ?thesis
    using a b by (rule conjI)
qed

lemma ord2year_767024: "ord2year 767024 = 2101"
  by (simp add: ord2year_def Let_def)

lemma init_2100_12_16:
  "ZhDate_init tables_1900_2100 2100 12 16 False =
     Inr \<lparr>lunar_year = 2100, lunar_month = 12, lunar_day = 16, leap_month = False,
          year_code = 54560, newyear = \<lparr>toordinal = 766684, tod = 0\<rparr>\<rparr>"
  by (simp add: ZhDate_init_def validate_def py_index_def codes_length nys_length code_2100
      ny_2100 strptime_2100)

text \<open>
  Claim C8. For every Gregorian date \<open>dt\<close> of the supported range, \<^verbatim>\<open>from_datetime\<close> assigns
  the lunar year \<open>dt.year\<close>, or \<open>dt.year - 1\<close> when \<open>dt\<close> is before the lunar new year of
  \<open>dt.year\<close>. The code does so for the Gregorian years 1900 to 2100, as proved above, and
  fails for the Gregorian dates of 2101 that belong to the lunar year 2100: 2101-01-15 is
  day 767024, the lunar date 2100-12-16 that \<^verbatim>\<open>__init__\<close> accepts and \<^verbatim>\<open>to_datetime\<close>
  converts, and \<^verbatim>\<open>from_datetime\<close> assigns it no lunar year: it raises \<^verbatim>\<open>IndexError\<close> when it
  reads \<^verbatim>\<open>LUNARNEWYEAR[dt.year - 1900]\<close>, before it steps back to the year 2100.
\<close>

theorem from_datetime_2101_01_15_raises_IndexError:
  "strptime (2101, 1, 15) = Inr \<lparr>toordinal = 767024, tod = 0\<rparr>
   \<and> year_of \<lparr>toordinal = 767024, tod = 0\<rparr> = 2101
   \<and> ZhDate_init tables_1900_2100 2100 12 16 False =
       Inr \<lparr>lunar_year = 2100, lunar_month = 12, lunar_day = 16, leap_month = False,
            year_code = 54560, newyear = \<lparr>toordinal = 766684, tod = 0\<rparr>\<rparr>
   \<and> to_datetime \<lparr>lunar_year = 2100, lunar_month = 12, lunar_day = 16, leap_month = False,
          year_code = 54560, newyear = \<lparr>toordinal = 766684, tod = 0\<rparr>\<rparr>
       = \<lparr>toordinal = 767024, tod = 0\<rparr>
   \<and> from_datetime tables_1900_2100 \<lparr>toordinal = 767024, tod = 0\<rparr> = Inl IndexError"
  by (simp add: strptime_def days_in_month_def is_leap_def ymd2ord_def days_before_year_def
      days_before_month_def init_2100_12_16 to_datetime_def ZhDate_days_passed_def decode_2100
      py_slice_to_def add_days_def from_datetime_def year_of_def ord2year_767024 py_index_def
      nys_length)

end
